theory Spec2Isabelle
  imports Complex_Main "HOL-Library.Word" "HOL-Library.FSet"
begin

section \<open>Instants and durations\<close>

text \<open>
  An instant (Go's \<^verbatim>\<open>time.Time\<close>) is the number of nanoseconds since Go's zero time, a
  \<^verbatim>\<open>time.Duration\<close> a number of nanoseconds. Every \<^verbatim>\<open>time.Now()\<close> of the source is a
  clock reading handed to the function as an argument (\<open>now\<close>); a function that reads the
  clock several times during one call gets a single reading. The operations below are those of
  Go's \<^verbatim>\<open>time\<close> package as its documentation gives them: \<^verbatim>\<open>Truncate\<close> rounds down to a
  multiple of the duration since the zero time and returns the instant unchanged for a
  duration that is not positive; \<^verbatim>\<open>Sub\<close> saturates at the bounds of \<^verbatim>\<open>Duration\<close>.
\<close>

type_synonym time = int
type_synonym duration = int

definition Minute :: duration where
  "Minute = 60000000000"

definition Truncate :: "time \<Rightarrow> duration \<Rightarrow> time" where
  "Truncate t d = (if d \<le> 0 then t else t - t mod d)"

definition Add :: "time \<Rightarrow> duration \<Rightarrow> time" where
  "Add t d = t + d"

definition Before :: "time \<Rightarrow> time \<Rightarrow> bool" where
  "Before t u = (t < u)"

definition After :: "time \<Rightarrow> time \<Rightarrow> bool" where
  "After t u = (u < t)"

definition Equal :: "time \<Rightarrow> time \<Rightarrow> bool" where
  "Equal t u = (t = u)"

definition Sub :: "time \<Rightarrow> time \<Rightarrow> duration" where
  "Sub t u = max (- (2 ^ 63)) (min (2 ^ 63 - 1) (t - u))"

definition IsZero :: "time \<Rightarrow> bool" where
  "IsZero t = (t = 0)"

section \<open>float64\<close>

text \<open>
  Go's \<^verbatim>\<open>float64\<close> is the binary64 format of IEEE 754. A value is a NaN, an infinity
  with its sign (\<open>True\<close> for negative), or a finite number: a sign and a magnitude, a
  rational that is not negative, so that the two zeros differ. The operations below return
  magnitudes that \<^verbatim>\<open>float64\<close> represents.
\<close>

datatype float64 = NaN | Inf bool | Finite bool rat

text \<open>
  The constants \<^verbatim>\<open>0\<close> and \<^verbatim>\<open>1\<close> of the source, as \<^verbatim>\<open>float64\<close>.
\<close>

instantiation float64 :: "{zero, one}"
begin

definition zero_float64 :: float64 where
  "zero_float64 = Finite False 0"

definition one_float64 :: float64 where
  "one_float64 = Finite False 1"

instance ..

end

text \<open>
  Every operation rounds its exact result to the nearest representable number, a tie to the
  one with the even significand. \<open>rne\<close> rounds a rational to the nearest integer, a tie to
  the even one; \<open>bitlen n\<close> is the number of binary digits of a positive integer, and
  \<open>ilog2 q\<close> the integer part of the binary logarithm of a positive rational. Around a
  magnitude \<open>q\<close> with \<open>2 ^ e \<le> q < 2 ^ (e + 1)\<close> the representable numbers are the multiples
  of \<open>2 ^ (e - 52)\<close> (53 significant bits), where \<open>e\<close> is not taken below \<open>- 1022\<close> (the
  subnormal numbers); a result of \<open>2 ^ 1024\<close> or more is an infinity.
\<close>

definition rne :: "rat \<Rightarrow> int" where
  "rne x =
     (let f = \<lfloor>x\<rfloor>; d = x - of_int f
      in if d < 1 / 2 then f else if 1 / 2 < d then f + 1 else if even f then f else f + 1)"

function bitlen :: "int \<Rightarrow> int" where
  "bitlen n = (if n \<le> 0 then 0 else 1 + bitlen (n div 2))"
  by auto

termination
  by (relation "measure nat") auto

declare bitlen.simps [simp del]

definition ilog2 :: "rat \<Rightarrow> int" where
  "ilog2 q = (if 1 \<le> q then bitlen \<lfloor>q\<rfloor> - 1 else - bitlen (\<lceil>1 / q\<rceil> - 1))"

definition float64_round :: "bool \<Rightarrow> rat \<Rightarrow> float64" where
  "float64_round s q =
     (if q = 0 then Finite s 0
      else let e = max (ilog2 q) (- 1022);
               ulp = 2 powi (e - 52);
               r = of_int (rne (q / ulp)) * ulp
           in if 2 powi 1024 \<le> r then Inf s else Finite s r)"

text \<open>
  The rational a finite value denotes; the conversion of a constant or of an integer, which
  rounds in the same way (\<^verbatim>\<open>float64(m.Count)\<close>); the sum and the quotient. An exact sum of
  zero is \<open>-0\<close> only when both operands are negative; a division by zero gives an infinity
  or, for \<open>0/0\<close>, a NaN.
\<close>

fun valof :: "float64 \<Rightarrow> rat" where
  "valof (Finite s q) = (if s then - q else q)"
| "valof x = 0"

definition float64_of_rat :: "rat \<Rightarrow> float64" where
  "float64_of_rat q = float64_round (q < 0) \<bar>q\<bar>"

definition float64_of_int64 :: "64 word \<Rightarrow> float64" where
  "float64_of_int64 c = float64_of_rat (of_int (sint c))"

fun float64_add :: "float64 \<Rightarrow> float64 \<Rightarrow> float64" where
  "float64_add NaN y = NaN"
| "float64_add x NaN = NaN"
| "float64_add (Inf s) (Inf t) = (if s = t then Inf s else NaN)"
| "float64_add (Inf s) (Finite t q) = Inf s"
| "float64_add (Finite s p) (Inf t) = Inf t"
| "float64_add (Finite s p) (Finite t q) =
     (let v = valof (Finite s p) + valof (Finite t q)
      in if v = 0 then Finite (s \<and> t) 0 else float64_round (v < 0) \<bar>v\<bar>)"

fun float64_quo :: "float64 \<Rightarrow> float64 \<Rightarrow> float64" where
  "float64_quo NaN y = NaN"
| "float64_quo x NaN = NaN"
| "float64_quo (Inf s) (Inf t) = NaN"
| "float64_quo (Inf s) (Finite t q) = Inf (s \<noteq> t)"
| "float64_quo (Finite s p) (Inf t) = Finite (s \<noteq> t) 0"
| "float64_quo (Finite s p) (Finite t q) =
     (if q = 0 then (if p = 0 then NaN else Inf (s \<noteq> t))
      else float64_round (s \<noteq> t) (p / q))"

section \<open>Metric (internal/aggregation/metrics.go)\<close>

text \<open>
  \<^verbatim>\<open>MetricType\<close> is a string type with four named constants. \<^verbatim>\<open>Count\<close> is an
  \<^verbatim>\<open>int64\<close>, here a 64-bit word read as signed by \<open>sint\<close>. \<^verbatim>\<open>Value\<close> and the
  observations are \<^verbatim>\<open>float64\<close>, and \<^verbatim>\<open>+=\<close> on them is the rounded sum. The mutex of a
  Metric is not modelled: every method is one atomic step.
\<close>

type_synonym MetricType = string

definition MetricTypeCounter :: MetricType where
  "MetricTypeCounter = ''counter''"

definition MetricTypeGauge :: MetricType where
  "MetricTypeGauge = ''gauge''"

definition MetricTypeHistogram :: MetricType where
  "MetricTypeHistogram = ''histogram''"

definition MetricTypeSet :: MetricType where
  "MetricTypeSet = ''set''"

record Metric =
  Name :: string
  Type :: MetricType
  Value :: float64
  Count :: "64 word"
  Timestamp :: time
  Tags :: "string \<rightharpoonup> string"
  Values :: "float64 list"
  UniqueSet :: "string fset"

definition NewMetric :: "string \<Rightarrow> MetricType \<Rightarrow> time \<Rightarrow> Metric" where
  "NewMetric name metricType now =
     \<lparr>Name = name, Type = metricType, Value = 0, Count = 0, Timestamp = now,
      Tags = Map.empty, Values = [], UniqueSet = {||}\<rparr>"

definition Increment :: "Metric \<Rightarrow> time \<Rightarrow> Metric" where
  "Increment m now =
     m\<lparr>Count := Count m + 1, Value := float64_add (Value m) 1, Metric.Timestamp := now\<rparr>"

definition IncrementBy :: "Metric \<Rightarrow> float64 \<Rightarrow> time \<Rightarrow> Metric" where
  "IncrementBy m v now =
     m\<lparr>Value := float64_add (Value m) v, Count := Count m + 1, Metric.Timestamp := now\<rparr>"

definition Set :: "Metric \<Rightarrow> float64 \<Rightarrow> time \<Rightarrow> Metric" where
  "Set m v now = m\<lparr>Value := v, Metric.Timestamp := now\<rparr>"

definition Observe :: "Metric \<Rightarrow> float64 \<Rightarrow> time \<Rightarrow> Metric" where
  "Observe m v now =
     m\<lparr>Values := Values m @ [v], Count := Count m + 1, Value := float64_add (Value m) v,
       Metric.Timestamp := now\<rparr>"

definition AddUnique :: "Metric \<Rightarrow> string \<Rightarrow> time \<Rightarrow> Metric" where
  "AddUnique m v now =
     (let s = finsert v (UniqueSet m)
      in m\<lparr>UniqueSet := s, Count := word_of_nat (fcard s), Metric.Timestamp := now\<rparr>)"

definition Average :: "Metric \<Rightarrow> float64" where
  "Average m = (if Count m = 0 then 0 else float64_quo (Value m) (float64_of_int64 (Count m)))"

text \<open>A sequence of \<^verbatim>\<open>AddUnique\<close> calls on one metric, each with its clock reading.\<close>

definition AddUnique_all :: "Metric \<Rightarrow> (string \<times> time) list \<Rightarrow> Metric" where
  "AddUnique_all m calls = foldl (\<lambda>m (v, now). AddUnique m v now) m calls"

section \<open>MetricsSnapshot\<close>

text \<open>
  The map of a snapshot holds pointers (\<^verbatim>\<open>*Metric\<close>). A pointer is an address into a
  store of Metric objects, the list of all metrics allocated so far; allocating appends to
  the store, so a fresh address is the length of the store. A method call through a pointer
  is \<open>call\<close>.
\<close>

type_synonym addr = nat
type_synonym store = "Metric list"

record MetricsSnapshot =
  Metrics :: "string \<rightharpoonup> addr"
  Timestamp :: time

definition NewMetricsSnapshot :: "time \<Rightarrow> MetricsSnapshot" where
  "NewMetricsSnapshot now = \<lparr>Metrics = Map.empty, Timestamp = now\<rparr>"

definition call :: "addr \<Rightarrow> (Metric \<Rightarrow> Metric) \<Rightarrow> store \<Rightarrow> store" where
  "call p f st = st[p := f (st ! p)]"

definition GetMetric ::
  "MetricsSnapshot \<Rightarrow> string \<Rightarrow> MetricType \<Rightarrow> time \<Rightarrow> store \<Rightarrow> addr \<times> MetricsSnapshot \<times> store" where
  "GetMetric ms name metricType now st =
     (case MetricsSnapshot.Metrics ms name of
        Some metric \<Rightarrow> (metric, ms, st)
      | None \<Rightarrow>
          (length st,
           ms\<lparr>MetricsSnapshot.Metrics := (MetricsSnapshot.Metrics ms)(name \<mapsto> length st)\<rparr>,
           st @ [NewMetric name metricType now]))"

definition GetMetricValue :: "MetricsSnapshot \<Rightarrow> string \<Rightarrow> store \<Rightarrow> float64 \<times> bool" where
  "GetMetricValue ms name st =
     (case MetricsSnapshot.Metrics ms name of
        Some metric \<Rightarrow> (Value (st ! metric), True)
      | None \<Rightarrow> (0, False))"

definition GetAllMetrics :: "MetricsSnapshot \<Rightarrow> (string \<rightharpoonup> addr)" where
  "GetAllMetrics ms = MetricsSnapshot.Metrics ms"

definition Reset :: "MetricsSnapshot \<Rightarrow> time \<Rightarrow> MetricsSnapshot" where
  "Reset ms now = ms\<lparr>MetricsSnapshot.Metrics := Map.empty, MetricsSnapshot.Timestamp := now\<rparr>"

text \<open>
  Calls on a snapshot and on the metrics it hands out, for statements about any later call:
  a \<^verbatim>\<open>GetMetric\<close>, or one of the five mutators through a pointer.
\<close>

datatype mutator =
    call_Increment time
  | call_IncrementBy float64 time
  | call_Set float64 time
  | call_Observe float64 time
  | call_AddUnique string time

fun apply_mutator :: "mutator \<Rightarrow> Metric \<Rightarrow> Metric" where
  "apply_mutator (call_Increment now) m = Increment m now"
| "apply_mutator (call_IncrementBy v now) m = IncrementBy m v now"
| "apply_mutator (call_Set v now) m = Set m v now"
| "apply_mutator (call_Observe v now) m = Observe m v now"
| "apply_mutator (call_AddUnique v now) m = AddUnique m v now"

datatype snapshot_call =
    do_GetMetric string MetricType time
  | do_mutator addr mutator

fun snapshot_step :: "MetricsSnapshot \<times> store \<Rightarrow> snapshot_call \<Rightarrow> MetricsSnapshot \<times> store" where
  "snapshot_step (ms, st) (do_GetMetric name metricType now) =
     snd (GetMetric ms name metricType now st)"
| "snapshot_step (ms, st) (do_mutator p f) = (ms, call p (apply_mutator f) st)"

definition snapshot_run ::
  "MetricsSnapshot \<times> store \<Rightarrow> snapshot_call list \<Rightarrow> MetricsSnapshot \<times> store" where
  "snapshot_run s cs = foldl snapshot_step s cs"

text \<open>Every pointer of the snapshot refers to an allocated metric.\<close>

definition allocated :: "MetricsSnapshot \<Rightarrow> store \<Rightarrow> bool" where
  "allocated ms st = (\<forall>p \<in> ran (MetricsSnapshot.Metrics ms). p < length st)"

text \<open>The snapshot holds the allocated metric at \<open>p\<close>, of kind \<open>ty\<close>, under \<open>name\<close>.\<close>

definition holds :: "string \<Rightarrow> addr \<Rightarrow> MetricType \<Rightarrow> MetricsSnapshot \<times> store \<Rightarrow> bool" where
  "holds name p ty s =
     (allocated (fst s) (snd s) \<and> MetricsSnapshot.Metrics (fst s) name = Some p
      \<and> p < length (snd s) \<and> Metric.Type (snd s ! p) = ty)"

section \<open>TimeWindow and WindowManager\<close>

record TimeWindow =
  StartTime :: time
  EndTime :: time
  Duration :: duration
  Metrics :: MetricsSnapshot
  Closed :: bool

definition NewTimeWindow :: "time \<Rightarrow> duration \<Rightarrow> time \<Rightarrow> TimeWindow" where
  "NewTimeWindow startTime d now =
     \<lparr>StartTime = startTime, EndTime = Add startTime d, Duration = d,
      Metrics = NewMetricsSnapshot now, Closed = False\<rparr>"

definition IsActive :: "TimeWindow \<Rightarrow> time \<Rightarrow> bool" where
  "IsActive tw t = (\<not> Closed tw \<and> Before t (EndTime tw))"

definition ShouldClose :: "TimeWindow \<Rightarrow> time \<Rightarrow> bool" where
  "ShouldClose tw t = (\<not> Closed tw \<and> After t (EndTime tw))"

definition Close :: "TimeWindow \<Rightarrow> TimeWindow" where
  "Close tw = tw\<lparr>Closed := True\<rparr>"

text \<open>
  The manager's slice holds its windows in insertion order; a \<^verbatim>\<open>*TimeWindow\<close> handed out
  by the manager is the position of the window in the slice.
\<close>

record WindowManager =
  Windows :: "TimeWindow list"
  duration :: duration

definition NewWindowManager :: "duration \<Rightarrow> WindowManager" where
  "NewWindowManager d = \<lparr>Windows = [], duration = d\<rparr>"

text \<open>The scan of \<^verbatim>\<open>GetOrCreateWindow\<close>: the first open window with the given start.\<close>

fun find_window :: "TimeWindow list \<Rightarrow> time \<Rightarrow> nat option" where
  "find_window [] windowStart = None"
| "find_window (window # rest) windowStart =
     (if Equal (StartTime window) windowStart \<and> \<not> Closed window then Some 0
      else map_option Suc (find_window rest windowStart))"

definition GetOrCreateWindow :: "WindowManager \<Rightarrow> time \<Rightarrow> time \<Rightarrow> nat \<times> WindowManager" where
  "GetOrCreateWindow wm t now =
     (let windowStart = Truncate t (duration wm)
      in case find_window (Windows wm) windowStart of
           Some i \<Rightarrow> (i, wm)
         | None \<Rightarrow>
             (length (Windows wm),
              wm\<lparr>Windows := Windows wm @ [NewTimeWindow windowStart (duration wm) now]\<rparr>))"

text \<open>
  The loop of \<^verbatim>\<open>CloseExpiredWindows\<close>: the windows closed by it, in the order met, and
  the slice after the loop.
\<close>

fun close_expired :: "TimeWindow list \<Rightarrow> time \<Rightarrow> TimeWindow list \<times> TimeWindow list" where
  "close_expired [] t = ([], [])"
| "close_expired (window # rest) t =
     (let (closedWindows, rest') = close_expired rest t
      in if ShouldClose window t then (Close window # closedWindows, Close window # rest')
         else (closedWindows, window # rest'))"

definition CloseExpiredWindows :: "WindowManager \<Rightarrow> time \<Rightarrow> TimeWindow list \<times> WindowManager" where
  "CloseExpiredWindows wm t =
     (let (closedWindows, ws) = close_expired (Windows wm) t
      in (closedWindows, wm\<lparr>Windows := ws\<rparr>))"

definition Cleanup :: "WindowManager \<Rightarrow> duration \<Rightarrow> time \<Rightarrow> WindowManager" where
  "Cleanup wm keepDuration now =
     wm\<lparr>Windows :=
          filter (\<lambda>window. \<not> Closed window \<or> Sub now (EndTime window) < keepDuration)
            (Windows wm)\<rparr>"

definition GetActiveWindows :: "WindowManager \<Rightarrow> TimeWindow list" where
  "GetActiveWindows wm = filter (\<lambda>window. \<not> Closed window) (Windows wm)"

text \<open>Calls on a window manager, for statements about every interleaving of them.\<close>

datatype manager_call =
    do_GetOrCreateWindow time time
  | do_CloseExpiredWindows time
  | do_Cleanup duration time

fun manager_step :: "WindowManager \<Rightarrow> manager_call \<Rightarrow> WindowManager" where
  "manager_step wm (do_GetOrCreateWindow t now) = snd (GetOrCreateWindow wm t now)"
| "manager_step wm (do_CloseExpiredWindows t) = snd (CloseExpiredWindows wm t)"
| "manager_step wm (do_Cleanup keepDuration now) = Cleanup wm keepDuration now"

definition manager_run :: "duration \<Rightarrow> manager_call list \<Rightarrow> WindowManager" where
  "manager_run d cs = foldl manager_step (NewWindowManager d) cs"

text \<open>A window whose start is a truncated instant and whose end is its start plus the duration.\<close>

definition aligned :: "duration \<Rightarrow> TimeWindow \<Rightarrow> bool" where
  "aligned d w = (StartTime w = Truncate (StartTime w) d \<and> EndTime w = Add (StartTime w) d)"

section \<open>Events and the aggregator (internal/aggregation/aggregator.go)\<close>

text \<open>
  A value of type \<^verbatim>\<open>interface{}\<close> carries its dynamic type; the type assertions of the
  source (\<^verbatim>\<open>.(string)\<close>, \<^verbatim>\<open>.(float64)\<close>) are pattern matches on it.
\<close>

datatype any =
    any_string string
  | any_float64 float64
  | any_int int
  | any_Duration duration
  | any_other

record Event =
  ID :: string
  Type :: string
  Timestamp :: time
  UserID :: string
  SessionID :: string
  Properties :: "string \<rightharpoonup> any"

text \<open>
  The callback is a function of the caller: what the aggregator sees of a call is the window
  it passes and whether the call returns or panics. \<open>heap\<close> is the store of the Metric
  objects of the aggregator's snapshots, and \<open>delivered\<close> the windows the callback has been
  called with, in order; neither is a field of the source. The logger is not modelled.
\<close>

datatype completion = returns | panics

record Aggregator =
  globalMetrics :: MetricsSnapshot
  windowManager :: WindowManager
  windowDuration :: duration
  flushInterval :: duration
  onWindowClosed :: "(TimeWindow \<Rightarrow> completion) option"
  heap :: store
  delivered :: "TimeWindow list"

definition NewAggregator :: "duration \<Rightarrow> duration \<Rightarrow> time \<Rightarrow> Aggregator" where
  "NewAggregator wd fi now =
     \<lparr>globalMetrics = NewMetricsSnapshot now, windowManager = NewWindowManager wd,
      windowDuration = wd, flushInterval = fi, onWindowClosed = None,
      heap = [], delivered = []\<rparr>"

definition SetWindowClosedCallback ::
  "Aggregator \<Rightarrow> (TimeWindow \<Rightarrow> completion) option \<Rightarrow> Aggregator" where
  "SetWindowClosedCallback a callback = a\<lparr>onWindowClosed := callback\<rparr>"

text \<open>
  \<^verbatim>\<open>a.globalMetrics.GetMetric(name, metricType)\<close>, and a method call on the metric it
  returned.
\<close>

definition globalMetrics_GetMetric ::
  "Aggregator \<Rightarrow> string \<Rightarrow> MetricType \<Rightarrow> time \<Rightarrow> addr \<times> Aggregator" where
  "globalMetrics_GetMetric a name metricType now =
     (case GetMetric (globalMetrics a) name metricType now (heap a) of
        (metric, ms, st) \<Rightarrow> (metric, a\<lparr>globalMetrics := ms, heap := st\<rparr>))"

definition on_metric :: "addr \<Rightarrow> (Metric \<Rightarrow> Metric) \<Rightarrow> Aggregator \<Rightarrow> Aggregator" where
  "on_metric p f a = a\<lparr>heap := call p f (heap a)\<rparr>"

definition processPageviewMetrics :: "Aggregator \<Rightarrow> Event \<Rightarrow> time \<Rightarrow> Aggregator" where
  "processPageviewMetrics a event now =
     (let (pageviews, a) = globalMetrics_GetMetric a ''pageviews'' MetricTypeCounter now;
          a = on_metric pageviews (\<lambda>m. Increment m now) a
      in case Properties event ''page'' of
           Some (any_string page) \<Rightarrow>
             (let (uniquePages, a) = globalMetrics_GetMetric a ''unique_pages'' MetricTypeSet now;
                  a = on_metric uniquePages (\<lambda>m. AddUnique m page now) a;
                  pageKey = ''page_views:'' @ page;
                  (pageMetric, a) = globalMetrics_GetMetric a pageKey MetricTypeCounter now
              in on_metric pageMetric (\<lambda>m. Increment m now) a)
         | _ \<Rightarrow> a)"

definition processClickMetrics :: "Aggregator \<Rightarrow> Event \<Rightarrow> time \<Rightarrow> Aggregator" where
  "processClickMetrics a event now =
     (let (clicks, a) = globalMetrics_GetMetric a ''clicks'' MetricTypeCounter now;
          a = on_metric clicks (\<lambda>m. Increment m now) a
      in case Properties event ''element'' of
           Some (any_string element) \<Rightarrow>
             (let elementKey = ''clicks:'' @ element;
                  (elementMetric, a) = globalMetrics_GetMetric a elementKey MetricTypeCounter now
              in on_metric elementMetric (\<lambda>m. Increment m now) a)
         | _ \<Rightarrow> a)"

definition processPurchaseMetrics :: "Aggregator \<Rightarrow> Event \<Rightarrow> time \<Rightarrow> Aggregator" where
  "processPurchaseMetrics a event now =
     (let (purchases, a) = globalMetrics_GetMetric a ''purchases'' MetricTypeCounter now;
          a = on_metric purchases (\<lambda>m. Increment m now) a
      in case Properties event ''amount'' of
           Some (any_float64 amount) \<Rightarrow>
             (let (revenue, a) = globalMetrics_GetMetric a ''revenue'' MetricTypeCounter now;
                  a = on_metric revenue (\<lambda>m. IncrementBy m amount now) a;
                  (revenueHist, a) =
                     globalMetrics_GetMetric a ''revenue_histogram'' MetricTypeHistogram now
              in on_metric revenueHist (\<lambda>m. Observe m amount now) a)
         | _ \<Rightarrow> a)"

definition updateGlobalMetrics :: "Aggregator \<Rightarrow> Event \<Rightarrow> time \<Rightarrow> Aggregator" where
  "updateGlobalMetrics a event now =
     (let (totalEvents, a) = globalMetrics_GetMetric a ''total_events'' MetricTypeCounter now;
          a = on_metric totalEvents (\<lambda>m. Increment m now) a;
          eventTypeKey = ''events_by_type:'' @ Event.Type event;
          (eventTypeMetric, a) = globalMetrics_GetMetric a eventTypeKey MetricTypeCounter now;
          a = on_metric eventTypeMetric (\<lambda>m. Increment m now) a;
          (uniqueUsers, a) = globalMetrics_GetMetric a ''unique_users'' MetricTypeSet now;
          a = (if UserID event \<noteq> ''''
               then on_metric uniqueUsers (\<lambda>m. AddUnique m (UserID event) now) a else a);
          (uniqueSessions, a) = globalMetrics_GetMetric a ''unique_sessions'' MetricTypeSet now;
          a = (if SessionID event \<noteq> ''''
               then on_metric uniqueSessions (\<lambda>m. AddUnique m (SessionID event) now) a else a)
      in if Event.Type event = ''pageview'' then processPageviewMetrics a event now
         else if Event.Type event = ''click'' then processClickMetrics a event now
         else if Event.Type event = ''purchase'' then processPurchaseMetrics a event now
         else a)"

text \<open>
  \<^verbatim>\<open>window.Metrics.GetMetric(name, metricType)\<close> for the window at position \<open>window\<close>
  of the manager's slice.
\<close>

definition window_GetMetric ::
  "Aggregator \<Rightarrow> nat \<Rightarrow> string \<Rightarrow> MetricType \<Rightarrow> time \<Rightarrow> addr \<times> Aggregator" where
  "window_GetMetric a window name metricType now =
     (let wm = windowManager a; w = Windows wm ! window
      in case GetMetric (TimeWindow.Metrics w) name metricType now (heap a) of
           (metric, ms, st) \<Rightarrow>
             (metric,
              a\<lparr>windowManager := wm\<lparr>Windows := (Windows wm)[window := w\<lparr>TimeWindow.Metrics := ms\<rparr>]\<rparr>,
                heap := st\<rparr>))"

definition updateWindowMetrics :: "Aggregator \<Rightarrow> nat \<Rightarrow> Event \<Rightarrow> time \<Rightarrow> Aggregator" where
  "updateWindowMetrics a window event now =
     (let (windowEvents, a) = window_GetMetric a window ''events'' MetricTypeCounter now;
          a = on_metric windowEvents (\<lambda>m. Increment m now) a;
          eventTypeKey = ''events:'' @ Event.Type event;
          (eventTypeMetric, a) = window_GetMetric a window eventTypeKey MetricTypeCounter now;
          a = on_metric eventTypeMetric (\<lambda>m. Increment m now) a;
          (activeUsers, a) = window_GetMetric a window ''active_users'' MetricTypeSet now
      in if UserID event \<noteq> ''''
         then on_metric activeUsers (\<lambda>m. AddUnique m (UserID event) now) a else a)"

definition ProcessEvent :: "Aggregator \<Rightarrow> Event \<Rightarrow> time \<Rightarrow> Aggregator" where
  "ProcessEvent a event now =
     (let a = updateGlobalMetrics a event now;
          (window, wm) = GetOrCreateWindow (windowManager a) (Event.Timestamp event) now;
          a = a\<lparr>windowManager := wm\<rparr>
      in updateWindowMetrics a window event now)"

text \<open>A sequence of \<^verbatim>\<open>ProcessEvent\<close> calls, each with its clock reading.\<close>

definition ProcessEvents :: "Aggregator \<Rightarrow> (Event \<times> time) list \<Rightarrow> Aggregator" where
  "ProcessEvents a evs = foldl (\<lambda>a (event, now). ProcessEvent a event now) a evs"

subsection \<open>The flush loop\<close>

text \<open>
  A call either returns or panics, in both cases with the state it has reached. The range
  loop of \<^verbatim>\<open>flushExpiredWindows\<close> calls the callback, when one is set, on each closed
  window in turn; the source has no \<^verbatim>\<open>recover\<close>, so a panic of the callback ends the loop
  and the function.
\<close>

datatype outcome = Returned Aggregator | Panicked Aggregator

fun flush_loop :: "TimeWindow list \<Rightarrow> Aggregator \<Rightarrow> outcome" where
  "flush_loop [] a = Returned a"
| "flush_loop (window # rest) a =
     (case onWindowClosed a of
        None \<Rightarrow> flush_loop rest a
      | Some callback \<Rightarrow>
          (let a' = a\<lparr>delivered := delivered a @ [window]\<rparr>
           in case callback window of
                panics \<Rightarrow> Panicked a'
              | returns \<Rightarrow> flush_loop rest a'))"

definition flushExpiredWindows :: "Aggregator \<Rightarrow> time \<Rightarrow> outcome" where
  "flushExpiredWindows a now =
     (let (closedWindows, wm) = CloseExpiredWindows (windowManager a) now;
          a = a\<lparr>windowManager := wm\<rparr>
      in if length closedWindows > 0 then flush_loop closedWindows a else Returned a)"

definition cleanup :: "Aggregator \<Rightarrow> time \<Rightarrow> Aggregator" where
  "cleanup a now = a\<lparr>windowManager := Cleanup (windowManager a) (5 * Minute) now\<rparr>"

text \<open>
  \<^verbatim>\<open>Start\<close> loops over a \<^verbatim>\<open>select\<close> on the cancellation of the context and on the
  ticker. The list is the sequence of cases the select takes, a tick with the clock reading
  of that iteration. When the list is used up the loop is still waiting in the select, and
  \<^verbatim>\<open>Start\<close> has not returned: the result is \<open>None\<close>.
\<close>

datatype select_case = ctx_Done | ticker_C time

fun Start :: "Aggregator \<Rightarrow> select_case list \<Rightarrow> outcome option" where
  "Start a [] = None"
| "Start a (ctx_Done # rest) = Some (Returned a)"
| "Start a (ticker_C now # rest) =
     (case flushExpiredWindows a now of
        Panicked a' \<Rightarrow> Some (Panicked a')
      | Returned a' \<Rightarrow> Start (cleanup a' now) rest)"

subsection \<open>Read API\<close>

definition GetGlobalMetrics :: "Aggregator \<Rightarrow> (string \<rightharpoonup> addr)" where
  "GetGlobalMetrics a = GetAllMetrics (globalMetrics a)"

definition GetGlobalMetricValue :: "Aggregator \<Rightarrow> string \<Rightarrow> float64 \<times> bool" where
  "GetGlobalMetricValue a name = GetMetricValue (globalMetrics a) name (heap a)"

definition GetStats :: "Aggregator \<Rightarrow> time \<Rightarrow> (string \<rightharpoonup> any)" where
  "GetStats a now =
     (let totalEvents = fst (GetMetricValue (globalMetrics a) ''total_events'' (heap a));
          uniqueUsers = fst (GetMetricValue (globalMetrics a) ''unique_users'' (heap a));
          uniqueSessions = fst (GetMetricValue (globalMetrics a) ''unique_sessions'' (heap a));
          activeWindows = GetActiveWindows (windowManager a)
      in [''total_events'' \<mapsto> any_float64 totalEvents,
          ''unique_users'' \<mapsto> any_float64 uniqueUsers,
          ''unique_sessions'' \<mapsto> any_float64 uniqueSessions,
          ''active_windows'' \<mapsto> any_int (int (length activeWindows)),
          ''metrics_count'' \<mapsto>
             any_int (int (card (dom (MetricsSnapshot.Metrics (globalMetrics a))))),
          ''uptime'' \<mapsto> any_Duration (Sub now (MetricsSnapshot.Timestamp (globalMetrics a)))])"

subsection \<open>The global metrics by name\<close>

text \<open>
  \<open>with_global\<close> is the idiom of the source for one update of a global metric,
  \<^verbatim>\<open>m := a.globalMetrics.GetMetric(name, t); m.F(...)\<close>, and \<open>with_window\<close> the same on
  the snapshot of a window; \<open>dispatch\<close> is the \<^verbatim>\<open>switch\<close> on the event type. The
  functions of the source are shown below to be chains of these steps.
\<close>

definition with_global ::
  "string \<Rightarrow> MetricType \<Rightarrow> (Metric \<Rightarrow> Metric) \<Rightarrow> time \<Rightarrow> Aggregator \<Rightarrow> Aggregator" where
  "with_global name metricType f now a =
     (case globalMetrics_GetMetric a name metricType now of (p, a') \<Rightarrow> on_metric p f a')"

definition with_window ::
  "nat \<Rightarrow> string \<Rightarrow> MetricType \<Rightarrow> (Metric \<Rightarrow> Metric) \<Rightarrow> time \<Rightarrow> Aggregator \<Rightarrow> Aggregator" where
  "with_window window name metricType f now a =
     (case window_GetMetric a window name metricType now of (p, a') \<Rightarrow> on_metric p f a')"

definition dispatch :: "Aggregator \<Rightarrow> Event \<Rightarrow> time \<Rightarrow> Aggregator" where
  "dispatch a event now =
     (if Event.Type event = ''pageview'' then processPageviewMetrics a event now
      else if Event.Type event = ''click'' then processClickMetrics a event now
      else if Event.Type event = ''purchase'' then processPurchaseMetrics a event now
      else a)"

text \<open>
  \<open>global_metric a name\<close> is the Metric object that \<^verbatim>\<open>GetGlobalMetrics()[name]\<close> points to, and
  \<open>global_count\<close> its \<^verbatim>\<open>Count\<close> (0 when there is no such metric). \<open>touch\<close> is one
  get-or-create followed by a method call, on the metrics by name.
\<close>

definition global_metric :: "Aggregator \<Rightarrow> (string \<rightharpoonup> Metric)" where
  "global_metric a = (\<lambda>name. map_option (\<lambda>p. heap a ! p) (MetricsSnapshot.Metrics (globalMetrics a) name))"

definition global_count :: "Aggregator \<Rightarrow> string \<Rightarrow> 64 word" where
  "global_count a name = (case global_metric a name of None \<Rightarrow> 0 | Some m \<Rightarrow> Count m)"

definition touch ::
  "(string \<rightharpoonup> Metric) \<Rightarrow> string \<Rightarrow> MetricType \<Rightarrow> (Metric \<Rightarrow> Metric) \<Rightarrow> time \<Rightarrow> (string \<rightharpoonup> Metric)" where
  "touch v name metricType f now =
     v(name \<mapsto> f (case v name of None \<Rightarrow> NewMetric name metricType now | Some m \<Rightarrow> m))"

text \<open>
  The pointers of the global snapshot and of the window snapshots refer to allocated
  metrics, no two names of the global snapshot share a metric, and no window shares a metric
  with the global snapshot.
\<close>

definition wf_heap :: "Aggregator \<Rightarrow> bool" where
  "wf_heap a =
     (allocated (globalMetrics a) (heap a)
      \<and> inj_on (MetricsSnapshot.Metrics (globalMetrics a)) (dom (MetricsSnapshot.Metrics (globalMetrics a)))
      \<and> (\<forall>w \<in> set (Windows (windowManager a)).
            allocated (TimeWindow.Metrics w) (heap a)
            \<and> ran (MetricsSnapshot.Metrics (TimeWindow.Metrics w))
                \<inter> ran (MetricsSnapshot.Metrics (globalMetrics a)) = {}))"

definition same_frame :: "Aggregator \<Rightarrow> Aggregator \<Rightarrow> bool" where
  "same_frame a a' =
     (windowManager a' = windowManager a \<and> delivered a' = delivered a
      \<and> onWindowClosed a' = onWindowClosed a \<and> windowDuration a' = windowDuration a
      \<and> flushInterval a' = flushInterval a)"

text \<open>
  What a window is apart from its metrics.
\<close>

definition window_shape :: "TimeWindow \<Rightarrow> time \<times> time \<times> duration \<times> bool" where
  "window_shape w = (StartTime w, EndTime w, Duration w, Closed w)"

text \<open>
  The non-empty user ids, the non-empty session ids and the types of a sequence of events,
  and a unique-set metric that holds exactly the given ids.
\<close>

definition user_ids :: "(Event \<times> time) list \<Rightarrow> string list" where
  "user_ids evs = filter (\<lambda>u. u \<noteq> '''') (map (UserID \<circ> fst) evs)"

definition session_ids :: "(Event \<times> time) list \<Rightarrow> string list" where
  "session_ids evs = filter (\<lambda>u. u \<noteq> '''') (map (SessionID \<circ> fst) evs)"

definition event_types :: "(Event \<times> time) list \<Rightarrow> string list" where
  "event_types evs = map (Event.Type \<circ> fst) evs"

definition is_unique_set :: "string list \<Rightarrow> Metric \<Rightarrow> bool" where
  "is_unique_set ids m =
     (Value m = 0 \<and> UniqueSet m = fset_of_list ids \<and> Count m = word_of_nat (fcard (UniqueSet m)))"

text \<open>
  The state after the given ticks of the flush loop (a panic ends them), the state an
  outcome carries, and whether it is a panic.
\<close>

fun ticks :: "Aggregator \<Rightarrow> time list \<Rightarrow> outcome" where
  "ticks a [] = Returned a"
| "ticks a (now # ts) =
     (case flushExpiredWindows a now of
        Panicked a' \<Rightarrow> Panicked a'
      | Returned a' \<Rightarrow> ticks (cleanup a' now) ts)"

fun state_of :: "outcome \<Rightarrow> Aggregator" where
  "state_of (Returned a) = a"
| "state_of (Panicked a) = a"

fun panicked :: "outcome \<Rightarrow> bool" where
  "panicked (Returned a) = False"
| "panicked (Panicked a) = True"

subsection \<open>Scenarios\<close>

text \<open>
  Scenario E4 of the specification (two pageviews, a click and a purchase by two users),
  with session ids added; and two pageviews one minute apart, which leave two open
  one-minute windows, with a callback that always returns, always panics, or panics on the windows
  that start at or after a given instant.
\<close>

definition Second :: duration where
  "Second = 1000000000"

definition mixed_events :: "(Event \<times> time) list" where
  "mixed_events =
     [(\<lparr>ID = ''evt_1'', Type = ''pageview'', Timestamp = 10 * Second, UserID = ''user_1'',
        SessionID = ''sess_1'', Properties = [''page'' \<mapsto> any_string ''/home'']\<rparr>, 10 * Second),
      (\<lparr>ID = ''evt_2'', Type = ''pageview'', Timestamp = 11 * Second, UserID = ''user_2'',
        SessionID = ''sess_2'', Properties = [''page'' \<mapsto> any_string ''/products'']\<rparr>, 11 * Second),
      (\<lparr>ID = ''evt_3'', Type = ''click'', Timestamp = 12 * Second, UserID = ''user_1'',
        SessionID = ''sess_1'', Properties = [''element'' \<mapsto> any_string ''button'']\<rparr>, 12 * Second),
      (\<lparr>ID = ''evt_4'', Type = ''purchase'', Timestamp = 13 * Second, UserID = ''user_2'',
        SessionID = '''', Properties = [''amount'' \<mapsto> any_float64 (float64_of_rat (9999 / 100))]\<rparr>, 13 * Second)]"

definition always_returns :: "TimeWindow \<Rightarrow> completion" where
  "always_returns w = returns"

definition always_panics :: "TimeWindow \<Rightarrow> completion" where
  "always_panics w = panics"

definition panics_from :: "time \<Rightarrow> TimeWindow \<Rightarrow> completion" where
  "panics_from t w = (if t \<le> StartTime w then panics else returns)"

definition two_windows :: "(Event \<times> time) list" where
  "two_windows =
     [(\<lparr>ID = ''evt_1'', Type = ''pageview'', Timestamp = 30 * Second, UserID = ''user_1'',
        SessionID = '''', Properties = Map.empty\<rparr>, 30 * Second),
      (\<lparr>ID = ''evt_2'', Type = ''pageview'', Timestamp = 90 * Second, UserID = ''user_2'',
        SessionID = '''', Properties = Map.empty\<rparr>, 90 * Second)]"

definition in_flight :: "(TimeWindow \<Rightarrow> completion) \<Rightarrow> Aggregator" where
  "in_flight callback =
     SetWindowClosedCallback
       (ProcessEvents (NewAggregator Minute (5 * Second) 0) two_windows) (Some callback)"

section \<open>The ingest server (internal/server/server.go)\<close>

text \<open>
  The event queue is a buffered channel: its buffer and its capacity. The
  \<^verbatim>\<open>select\<close> with a \<^verbatim>\<open>default\<close> case sends when the buffer has room and takes the
  default otherwise; the workers that receive from the channel are not part of a handler
  call. \<^verbatim>\<open>server.Event\<close> has the fields of \<^verbatim>\<open>aggregation.Event\<close>.
\<close>

record 'a chan =
  buffer :: "'a list"
  capacity :: nat

definition try_send :: "'a chan \<Rightarrow> 'a \<Rightarrow> 'a chan option" where
  "try_send ch v =
     (if length (buffer ch) < capacity ch then Some (ch\<lparr>buffer := buffer ch @ [v]\<rparr>) else None)"

text \<open>
  What a handler writes with \<^verbatim>\<open>c.JSON(code, obj)\<close>.
\<close>

record ErrorResponse =
  Error :: bool
  Message :: string

record SuccessResponse =
  Status :: string
  Data :: "string \<rightharpoonup> any"
  Message :: string

datatype body = error_response ErrorResponse | success_response SuccessResponse

record reply =
  code :: int
  obj :: body

definition StatusBadRequest :: int where
  "StatusBadRequest = 400"

definition StatusAccepted :: int where
  "StatusAccepted = 202"

text \<open>
  \<^verbatim>\<open>fmt.Sprintf("%d", i)\<close>: the decimal digits of an integer.
\<close>

fun digits :: "nat \<Rightarrow> string" where
  "digits n =
     (if n < 10 then [''0123456789'' ! n]
      else digits (n div 10) @ [''0123456789'' ! (n mod 10)])"

declare digits.simps [simp del]

definition Sprint_d :: "int \<Rightarrow> string" where
  "Sprint_d i = (if i < 0 then CHR ''-'' # digits (nat (- i)) else digits (nat i))"

record Server =
  eventQueue :: "Event chan"
  aggregator :: "Aggregator option"

text \<open>
  \<^verbatim>\<open>c.ShouldBindJSON(&events)\<close> decodes the body of the request and validates what it
  decoded. The body either is not the JSON of an array of events (with the error of the
  decoder) or decodes to a slice of events; the validator then visits every element of the
  slice and refuses the batch when an element has an empty \<^verbatim>\<open>Type\<close>, the field tagged
  \<^verbatim>\<open>binding:"required"\<close>. The text of the validator's error is the library's, and the
  handler only copies it into its reply: it is the parameter \<open>validation_error\<close>.
\<close>

datatype request_body = undecodable string | decoded "Event list"

datatype 'a bind_result = bind_failed string | bound 'a

definition ShouldBindJSON ::
  "(Event list \<Rightarrow> string) \<Rightarrow> request_body \<Rightarrow> Event list bind_result" where
  "ShouldBindJSON validation_error request =
     (case request of
        undecodable err \<Rightarrow> bind_failed err
      | decoded events \<Rightarrow>
          if list_ex (\<lambda>e. Event.Type e = '''') events then bind_failed (validation_error events)
          else bound events)"

text \<open>
  \<open>defaulted\<close> fills the missing timestamp and id of the item at position \<open>i\<close>
  (\<open>nano i\<close> is the reading of \<^verbatim>\<open>time.Now().UnixNano()\<close> there), and \<open>queue_all\<close> is the
  loop over the batch with its two counters.
\<close>

definition defaulted :: "Event \<Rightarrow> nat \<Rightarrow> time \<Rightarrow> (nat \<Rightarrow> int) \<Rightarrow> Event" where
  "defaulted e i now nano =
     (let event = (if IsZero (Event.Timestamp e) then e\<lparr>Event.Timestamp := now\<rparr> else e)
      in if ID event = ''''
         then event\<lparr>ID := ''evt_'' @ Sprint_d (nano i) @ ''_'' @ Sprint_d (int i)\<rparr>
         else event)"

fun queue_all ::
  "Event list \<Rightarrow> nat \<Rightarrow> time \<Rightarrow> (nat \<Rightarrow> int) \<Rightarrow> Event chan \<Rightarrow> int \<Rightarrow> int
     \<Rightarrow> Event chan \<times> int \<times> int" where
  "queue_all [] i now nano q accepted rejected = (q, accepted, rejected)"
| "queue_all (e # rest) i now nano q accepted rejected =
     (let event = defaulted e i now nano
      in if Event.Type event = '''' then queue_all rest (Suc i) now nano q accepted (rejected + 1)
         else (case try_send q event of
                 Some q' \<Rightarrow> queue_all rest (Suc i) now nano q' (accepted + 1) rejected
               | None \<Rightarrow> queue_all rest (Suc i) now nano q accepted (rejected + 1)))"

definition handleBatchEvents ::
  "Server \<Rightarrow> (Event list \<Rightarrow> string) \<Rightarrow> request_body \<Rightarrow> time \<Rightarrow> (nat \<Rightarrow> int)
     \<Rightarrow> Server \<times> reply" where
  "handleBatchEvents s validation_error request now nano =
     (case ShouldBindJSON validation_error request of
        bind_failed err \<Rightarrow>
          (s, \<lparr>code = StatusBadRequest,
               obj = error_response
                 \<lparr>Error = True, ErrorResponse.Message = ''invalid batch data: '' @ err\<rparr>\<rparr>)
      | bound events \<Rightarrow>
          if length events = 0 then
            (s, \<lparr>code = StatusBadRequest,
                 obj = error_response \<lparr>Error = True, ErrorResponse.Message = ''empty batch''\<rparr>\<rparr>)
          else if length events > 1000 then
            (s, \<lparr>code = StatusBadRequest,
                 obj = error_response
                   \<lparr>Error = True,
                    ErrorResponse.Message = ''batch size exceeds limit of 1000''\<rparr>\<rparr>)
          else
            (case queue_all events 0 now nano (eventQueue s) 0 0 of
               (q, accepted, rejected) \<Rightarrow>
                 (s\<lparr>eventQueue := q\<rparr>,
                  \<lparr>code = StatusAccepted,
                   obj = success_response
                     \<lparr>Status = ''accepted'',
                      Data = [''total'' \<mapsto> any_int (int (length events)),
                              ''accepted'' \<mapsto> any_int accepted,
                              ''rejected'' \<mapsto> any_int rejected],
                      Message = ''batch processed: '' @ Sprint_d (int (length events))
                                  @ '' events''\<rparr>\<rparr>)))"

text \<open>
  The \<^verbatim>\<open>Data\<close> of a success reply, the room left in a queue, and a scenario: a server
  whose queue has room for two events, a text for the validator's error, a batch of four
  events with their types, and the same batch with the type of the second event left out.
\<close>

definition data_of :: "reply \<Rightarrow> (string \<rightharpoonup> any)" where
  "data_of r = (case obj r of success_response x \<Rightarrow> Data x | error_response x \<Rightarrow> Map.empty)"

definition room :: "'a chan \<Rightarrow> nat" where
  "room q = capacity q - length (buffer q)"

definition small_server :: Server where
  "small_server = \<lparr>eventQueue = \<lparr>buffer = [], capacity = 2\<rparr>, aggregator = None\<rparr>"

definition unix_nano :: "nat \<Rightarrow> int" where
  "unix_nano i = 1700000000000000000 + int i"

definition type_required :: "Event list \<Rightarrow> string" where
  "type_required events = ''Field validation for Type failed on the required tag''"

definition typed_batch_of_four :: "Event list" where
  "typed_batch_of_four =
     [\<lparr>ID = ''evt_1'', Type = ''pageview'', Timestamp = 10, UserID = ''user_1'',
       SessionID = '''', Properties = Map.empty\<rparr>,
      \<lparr>ID = ''evt_2'', Type = ''pageview'', Timestamp = 11, UserID = ''user_2'',
       SessionID = '''', Properties = Map.empty\<rparr>,
      \<lparr>ID = ''evt_3'', Type = ''click'', Timestamp = 12, UserID = ''user_1'',
       SessionID = '''', Properties = Map.empty\<rparr>,
      \<lparr>ID = ''evt_4'', Type = ''purchase'', Timestamp = 13, UserID = ''user_2'',
       SessionID = '''', Properties = Map.empty\<rparr>]"

definition batch_of_four :: "Event list" where
  "batch_of_four =
     [\<lparr>ID = ''evt_1'', Type = ''pageview'', Timestamp = 10, UserID = ''user_1'',
       SessionID = '''', Properties = Map.empty\<rparr>,
      \<lparr>ID = ''evt_2'', Type = '''', Timestamp = 11, UserID = ''user_2'',
       SessionID = '''', Properties = Map.empty\<rparr>,
      \<lparr>ID = ''evt_3'', Type = ''click'', Timestamp = 12, UserID = ''user_1'',
       SessionID = '''', Properties = Map.empty\<rparr>,
      \<lparr>ID = ''evt_4'', Type = ''purchase'', Timestamp = 13, UserID = ''user_2'',
       SessionID = '''', Properties = Map.empty\<rparr>]"

section \<open>Rounding\<close>

lemma bitlen_nonpos: "n \<le> 0 \<Longrightarrow> bitlen n = 0"
  by (simp add: bitlen.simps)

lemma bitlen_pos: "0 < n \<Longrightarrow> bitlen n = 1 + bitlen (n div 2)"
  by (subst bitlen.simps) simp

lemma bitlen_bounds:
  "0 < n \<Longrightarrow> 0 < bitlen n \<and> 2 ^ nat (bitlen n - 1) \<le> n \<and> n < 2 ^ nat (bitlen n)"
proof (induction n rule: bitlen.induct)
  case (1 n)
  show ?case
  proof (cases "n = 1")
    case True
    then show ?thesis by (simp add: bitlen_pos bitlen_nonpos)
  next
    case False
    with 1 have m: "0 < n div 2" by simp
    from 1 have "\<not> n \<le> 0" by simp
    from 1(1)[OF this m] have ih: "0 < bitlen (n div 2)"
      "2 ^ nat (bitlen (n div 2) - 1) \<le> n div 2" "n div 2 < 2 ^ nat (bitlen (n div 2))" by auto
    define b where "b = nat (bitlen (n div 2) - 1)"
    have bl: "bitlen (n div 2) = int b + 1" using ih(1) by (simp add: b_def)
    have bn: "bitlen n = int b + 2" using 1(2) by (simp add: bitlen_pos bl)
    have l: "(2::int) ^ b \<le> n div 2" using ih(2) by (simp add: b_def)
    have u: "n div 2 < (2::int) ^ Suc b" using ih(3) by (simp add: bl nat_add_distrib)
    have "2 ^ Suc b \<le> n" using l by simp
    moreover have "n < 2 ^ Suc (Suc b)" using u by simp
    ultimately show ?thesis by (simp add: bn nat_add_distrib)
  qed
qed


lemma two_powi_nat: "0 \<le> k \<Longrightarrow> (2::rat) powi k = of_int (2 ^ nat k)"
  by (simp add: power_int_def)

lemma two_powi_neg: "0 \<le> k \<Longrightarrow> (2::rat) powi (- k) = 1 / of_int (2 ^ nat k)"
  by (cases "k = 0") (simp_all add: power_int_def field_simps)

lemma ilog2_bounds:
  assumes "0 < q"
  shows "2 powi (ilog2 q) \<le> q \<and> q < 2 powi (ilog2 q + 1)"
proof (cases "1 \<le> q")
  case True
  define n where "n = \<lfloor>q\<rfloor>"
  have n: "0 < n" using True by (simp add: n_def)
  note b = bitlen_bounds[OF n]
  have il: "ilog2 q = bitlen n - 1" using True by (simp add: ilog2_def n_def)
  have "(of_int (2 ^ nat (bitlen n - 1)) :: rat) \<le> of_int n" using b by (simp only: of_int_le_iff)
  also have "\<dots> \<le> q" by (simp add: n_def)
  finally have l: "2 powi (ilog2 q) \<le> q" using b by (simp add: il two_powi_nat)
  have "q < of_int (n + 1)" unfolding n_def by linarith
  also have "\<dots> \<le> of_int (2 ^ nat (bitlen n))" using b by (simp only: of_int_le_iff) simp
  finally have "q < 2 powi (ilog2 q + 1)" using b by (simp add: il two_powi_nat)
  with l show ?thesis by simp
next
  case False
  define c where "c = \<lceil>1 / q\<rceil>"
  have y: "1 < 1 / q" using assms False by simp
  have c: "0 < c - 1" using y unfolding c_def by linarith
  note b = bitlen_bounds[OF c]
  define k where "k = bitlen (c - 1)"
  have il: "ilog2 q = - k" using False by (simp add: ilog2_def c_def k_def)
  have k: "0 < k" using b by (simp add: k_def)
  have "1 / q \<le> of_int c" by (simp add: c_def)
  also have "\<dots> \<le> of_int (2 ^ nat k)" using b unfolding k_def by (simp only: of_int_le_iff) simp
  finally have "1 / of_int (2 ^ nat k) \<le> q" using assms by (simp add: field_simps)
  then have l: "2 powi (ilog2 q) \<le> q" using k by (simp add: il two_powi_neg)
  have "(of_int (2 ^ nat (k - 1)) :: rat) \<le> of_int (c - 1)" using b unfolding k_def by (simp only: of_int_le_iff)
  also have "\<dots> < 1 / q" unfolding c_def by linarith
  finally have "q < 1 / of_int (2 ^ nat (k - 1))" using assms by (simp add: field_simps)
  moreover have "(2::rat) powi (ilog2 q + 1) = 1 / of_int (2 ^ nat (k - 1))"
    using two_powi_neg[of "k - 1"] k by (simp add: il)
  ultimately show ?thesis using l by simp
qed

lemma two_powi_less: "(2::rat) powi a < 2 powi b \<Longrightarrow> a < b"
  by (rule ccontr) (simp add: not_less power_int_increasing leD)

lemma ilog2_unique:
  assumes "2 powi e \<le> q" "q < 2 powi (e + 1)"
  shows "ilog2 q = e"
proof -
  have q: "0 < q" using assms(1) by (rule less_le_trans[rotated]) simp
  note b = ilog2_bounds[OF q]
  have "(2::rat) powi e < 2 powi (ilog2 q + 1)" using assms(1) b by linarith
  then have 1: "e < ilog2 q + 1" by (rule two_powi_less)
  have "(2::rat) powi (ilog2 q) < 2 powi (e + 1)" using assms(2) b by linarith
  then have "ilog2 q < e + 1" by (rule two_powi_less)
  with 1 show ?thesis by simp
qed

lemma rne_of_int: "rne (of_int k) = k"
  by (simp add: rne_def)

lemma float64_round_exact:
  assumes "2 powi e \<le> q" "q < 2 powi (e + 1)" "- 1022 \<le> e" "e < 1024"
    and "q / 2 powi (e - 52) = of_int k"
  shows "float64_round s q = Finite s q"
proof -
  have q: "q \<noteq> 0" using assms(1) less_le_trans[of 0 "2 powi e" q] by simp
  have il: "ilog2 q = e" using assms(1,2) by (rule ilog2_unique)
  have "of_int (rne (q / 2 powi (e - 52))) * 2 powi (e - 52) = of_int k * (2::rat) powi (e - 52)"
    by (simp only: assms(5) rne_of_int)
  also have "\<dots> = q" using assms(5) by (simp add: field_simps)
  finally have r: "of_int (rne (q / 2 powi (e - 52))) * 2 powi (e - 52) = q" .
  have "(2::rat) powi (e + 1) \<le> 2 powi 1024" using assms(4) by (intro power_int_increasing) simp_all
  then have "\<not> 2 powi 1024 \<le> q" using assms(2) by linarith
  then show ?thesis using q assms(3) by (simp add: float64_round_def il Let_def r max_def)
qed

lemma float64_round_nat:
  assumes "n \<le> 2 ^ 53"
  shows "float64_round s (of_nat n) = Finite s (of_nat n)"
proof (cases "n = 0")
  case True
  then show ?thesis by (simp add: float64_round_def)
next
  case False
  define q :: rat where "q = of_nat n"
  have q: "0 < q" "1 \<le> q" using False by (simp_all add: q_def)
  define e where "e = ilog2 q"
  note b = ilog2_bounds[OF q(1), folded e_def]
  have e0: "0 \<le> e"
  proof (rule ccontr)
    assume "\<not> 0 \<le> e"
    then have "(2::rat) powi (e + 1) \<le> 2 powi 0" by (intro power_int_increasing) simp_all
    then show False using b q by simp
  qed
  have qle: "q \<le> 2 powi 53" using assms by (simp add: q_def)
  then have "(2::rat) powi e < 2 powi 54" using b by simp
  then have e54: "e < 54" by (rule two_powi_less)
  have "\<exists>k. q / 2 powi (e - 52) = of_int k"
  proof (cases "e \<le> 52")
    case True
    have "(2::rat) powi (e - 52) = 1 / of_int (2 ^ nat (52 - e))"
      using two_powi_neg[of "52 - e"] True by simp
    then have "q / 2 powi (e - 52) = of_int (int n * 2 ^ nat (52 - e))"
      by (simp add: q_def)
    then show ?thesis ..
  next
    case False
    with e54 have e: "e = 53" by simp
    with b qle have "q = 2 ^ 53" by simp
    then have "q / 2 powi (e - 52) = of_int (2 ^ 52)" by (simp add: e)
    then show ?thesis ..
  qed
  then obtain k where k: "q / 2 powi (e - 52) = of_int k" ..
  have "float64_round s q = Finite s q"
    using b e0 e54 k by (intro float64_round_exact[of e q k]) simp_all
  then show ?thesis by (simp add: q_def)
qed

lemma float64_round_tie:
  "float64_round s (2 ^ 53 + 1) = Finite s (2 ^ 53)"
proof -
  have il: "ilog2 (2 ^ 53 + 1) = 53" by (rule ilog2_unique) simp_all
  have "\<lfloor>(2 ^ 53 + 1) / 2 :: rat\<rfloor> = 2 ^ 52"
    by (rule floor_unique) simp_all
  then have "rne ((2 ^ 53 + 1) / 2) = 2 ^ 52"
    unfolding rne_def Let_def by simp
  with il show ?thesis by (simp add: float64_round_def Let_def)
qed

lemma float64_of_rat_1: "float64_of_rat 1 = Finite False 1"
  using float64_round_nat[of 1 False] by (simp add: float64_of_rat_def)

lemma float64_add_1:
  "n < 2 ^ 53 \<Longrightarrow> float64_add (Finite False (of_nat n)) (Finite False 1) = Finite False (of_nat (Suc n))"
  using float64_round_nat[of "Suc n" False] by (simp add: Let_def add.commute)

lemma float64_add_1_top:
  "float64_add (Finite False (2 ^ 53)) (Finite False 1) = Finite False (2 ^ 53)"
  using float64_round_tie[of False] by (simp add: Let_def)

lemma sint_word_of_nat_64:
  "n < 2 ^ 63 \<Longrightarrow> sint (word_of_nat n :: 64 word) = int n"
  by (simp add: signed_of_nat signed_take_bit_int_eq_self)

lemma float64_of_int64_nat:
  assumes "n \<le> 2 ^ 53"
  shows "float64_of_int64 (word_of_nat n) = Finite False (of_nat n)"
proof -
  have "n < 2 ^ 63" using assms by (rule le_less_trans) simp
  then have "sint (word_of_nat n :: 64 word) = int n"
    by (rule sint_word_of_nat_64)
  then show ?thesis using float64_round_nat[OF assms, of False]
    by (simp add: float64_of_int64_def float64_of_rat_def)
qed

lemma float64_add_nat:
  assumes "i + j \<le> 2 ^ 53"
  shows "float64_add (Finite False (of_nat i)) (Finite False (of_nat j)) = Finite False (of_nat (i + j))"
proof (cases "i + j = 0")
  case True
  then show ?thesis by simp
next
  case False
  then have "(of_nat i :: rat) + of_nat j \<noteq> 0" "\<not> (of_nat i :: rat) + of_nat j < 0"
    by (simp_all add: of_nat_add [symmetric] del: of_nat_add)
  then show ?thesis
    using float64_round_nat [OF assms, of False] by (simp add: Let_def)
qed

lemma rne_eq:
  assumes "of_int f \<le> x" "x < of_int f + 1"
  shows "rne x = (if x - of_int f < 1 / 2 then f
                   else if 1 / 2 < x - of_int f then f + 1 else if even f then f else f + 1)"
proof -
  have "\<lfloor>x\<rfloor> = f" using assms by (intro floor_unique) simp_all
  then show ?thesis by (simp add: rne_def Let_def)
qed

lemma float64_round_eq:
  assumes "2 powi e \<le> q" "q < 2 powi (e + 1)" "- 1022 \<le> e"
    and "rne (q / 2 powi (e - 52)) = k" and "of_int k * 2 powi (e - 52) < (2::rat) powi 1024"
  shows "float64_round s q = Finite s (of_int k * 2 powi (e - 52))"
proof -
  have q: "q \<noteq> 0" using assms(1) less_le_trans[of 0 "2 powi e" q] by simp
  have il: "ilog2 q = e" using assms(1,2) by (rule ilog2_unique)
  show ?thesis using q assms(3,5) by (simp add: float64_round_def il Let_def max_def assms(4))
qed

text \<open>
  The \<^verbatim>\<open>float64\<close> nearest to 0.1, and its sums: adding it three times to 0 gives
  0.30000000000000004, one step above the \<^verbatim>\<open>float64\<close> nearest to 0.3.
\<close>

lemma float64_tenth: "float64_of_rat (1 / 10) = Finite False (3602879701896397 / 2 ^ 55)"
proof -
  have "rne ((1 / 10) / 2 powi (- 4 - 52)) = 7205759403792794"
    by (subst rne_eq [of 7205759403792793]) (simp_all add: power_int_def power_divide)
  from float64_round_eq [of "- 4" "1 / 10" 7205759403792794 False, OF _ _ _ this]
  show ?thesis by (simp add: float64_of_rat_def power_int_def power_divide)
qed

lemma float64_two_tenths:
  "float64_add (Finite False (3602879701896397 / 2 ^ 55)) (Finite False (3602879701896397 / 2 ^ 55))
     = Finite False (3602879701896397 / 2 ^ 54)"
proof -
  have "rne ((3602879701896397 / 2 ^ 54) / 2 powi (- 3 - 52)) = 7205759403792794"
    by (subst rne_eq [of 7205759403792794]) (simp_all add: power_int_def power_divide)
  from float64_round_eq [of "- 3" "3602879701896397 / 2 ^ 54" 7205759403792794 False, OF _ _ _ this]
  show ?thesis by (simp add: Let_def power_int_def power_divide)
qed

lemma float64_three_tenths:
  "float64_add (Finite False (3602879701896397 / 2 ^ 54)) (Finite False (3602879701896397 / 2 ^ 55))
     = Finite False (5404319552844596 / 2 ^ 54)"
proof -
  have "rne ((10808639105689191 / 2 ^ 55) / 2 powi (- 2 - 52)) = 5404319552844596"
    by (subst rne_eq [of 5404319552844595]) (simp_all add: power_int_def power_divide)
  from float64_round_eq [of "- 2" "10808639105689191 / 2 ^ 55" 5404319552844596 False, OF _ _ _ this]
  show ?thesis by (simp add: Let_def power_int_def power_divide)
qed

lemma float64_nearest_three_tenths:
  "float64_of_rat (3 / 10) = Finite False (5404319552844595 / 2 ^ 54)"
proof -
  have "rne ((3 / 10) / 2 powi (- 2 - 52)) = 5404319552844595"
    by (subst rne_eq [of 5404319552844595]) (simp_all add: power_int_def power_divide)
  from float64_round_eq [of "- 2" "3 / 10" 5404319552844595 False, OF _ _ _ this]
  show ?thesis by (simp add: float64_of_rat_def power_int_def power_divide)
qed

lemma float64_zero_plus_tenth:
  "float64_add 0 (Finite False (3602879701896397 / 2 ^ 55)) = Finite False (3602879701896397 / 2 ^ 55)"
proof -
  have "float64_round False (3602879701896397 / 2 ^ 55) = Finite False (3602879701896397 / 2 ^ 55)"
    by (rule float64_round_exact [of "- 4" _ 7205759403792794]) (simp_all add: power_int_def power_divide)
  then show ?thesis by (simp add: zero_float64_def Let_def)
qed

section \<open>Metric arithmetic\<close>

lemma Count_foldl_Increment:
  "Count (foldl Increment m ts) = Count m + word_of_nat (length ts)"
  by (induction ts arbitrary: m) (simp_all add: Increment_def)

lemma Value_Increment:
  assumes "Value m = Finite False (of_nat k)" "k \<le> 2 ^ 53"
  shows "Value (Increment m t) = Finite False (of_nat (min (Suc k) (2 ^ 53)))"
proof (cases "k < 2 ^ 53")
  case True
  then show ?thesis
    using float64_add_1 [OF True] assms(1) by (simp add: Increment_def one_float64_def)
next
  case False
  with assms(2) have "k = 2 ^ 53" by simp
  then show ?thesis
    using float64_add_1_top assms(1) by (simp add: Increment_def one_float64_def)
qed

lemma Value_foldl_Increment:
  "Value m = Finite False (of_nat k) \<Longrightarrow> k \<le> 2 ^ 53 \<Longrightarrow>
   Value (foldl Increment m ts) = Finite False (of_nat (min (k + length ts) (2 ^ 53)))"
proof (induction ts arbitrary: m k)
  case Nil
  then show ?case by simp
next
  case (Cons t ts)
  have "Value (foldl Increment (Increment m t) ts)
          = Finite False (of_nat (min (min (Suc k) (2 ^ 53) + length ts) (2 ^ 53)))"
    by (rule Cons.IH [OF Value_Increment [OF Cons.prems]]) simp
  moreover have "min (min (Suc k) (2 ^ 53) + length ts) (2 ^ 53) = min (k + length (t # ts)) ((2::nat) ^ 53)"
    by simp
  ultimately show ?case by (simp only: foldl_Cons)
qed

lemma Value_IncrementBy_tenth_thrice:
  "Value (IncrementBy (IncrementBy (IncrementBy (NewMetric name metricType t0)
             (float64_of_rat (1 / 10)) t1) (float64_of_rat (1 / 10)) t2) (float64_of_rat (1 / 10)) t3)
     = Finite False (5404319552844596 / 2 ^ 54)"
  by (simp only: IncrementBy_def NewMetric_def Metric.simps float64_tenth float64_zero_plus_tenth
        float64_two_tenths float64_three_tenths)

text \<open>
  C10. On a freshly created Metric, \<open>n\<close> calls of \<^verbatim>\<open>Increment\<close> (one clock reading
  each, the list \<open>ts\<close>) give \<^verbatim>\<open>Count = n\<close> and \<^verbatim>\<open>Value = n\<close>: the count as the
  \<^verbatim>\<open>int64\<close> of \<open>n\<close>, and as the integer \<open>n\<close> itself below \<open>2 ^ 63\<close>; the value as the
  \<^verbatim>\<open>float64\<close> \<open>n\<close> up to \<open>2 ^ 53\<close>, where it stays from then on (\<open>2 ^ 53 + 1\<close> is a tie
  between \<open>2 ^ 53\<close> and \<open>2 ^ 53 + 2\<close>, rounded to the even significand).
  \<^verbatim>\<open>IncrementBy(v)\<close> adds \<open>v\<close> to the value, as \<^verbatim>\<open>float64\<close> (the sum is the exact one
  when the value and \<open>v\<close> are natural numbers with a sum up to \<open>2 ^ 53\<close>), and 1 to the
  count; \<^verbatim>\<open>Set(v)\<close> assigns the value and leaves the count; \<^verbatim>\<open>Average()\<close> is the
  \<^verbatim>\<open>float64\<close> quotient of the value by the count for a positive count, and 0 for the
  count 0.
\<close>

theorem C10_metric_arithmetic:
  "Count (foldl Increment (NewMetric name metricType t0) ts) = word_of_nat (length ts)
   \<and> (length ts < 2 ^ 63 \<longrightarrow>
        sint (Count (foldl Increment (NewMetric name metricType t0) ts)) = int (length ts))
   \<and> Value (foldl Increment (NewMetric name metricType t0) ts)
        = Finite False (of_nat (min (length ts) (2 ^ 53)))
   \<and> (length ts \<le> 2 ^ 53 \<longrightarrow>
        Value (foldl Increment (NewMetric name metricType t0) ts) = Finite False (of_nat (length ts)))
   \<and> Value (IncrementBy m v now) = float64_add (Value m) v
   \<and> (Value m = Finite False (of_nat i) \<and> v = Finite False (of_nat j) \<and> i + j \<le> 2 ^ 53 \<longrightarrow>
        Value (IncrementBy m v now) = Finite False (of_nat (i + j)))
   \<and> Count (IncrementBy m v now) = Count m + 1
   \<and> Value (Set m v now) = v
   \<and> Count (Set m v now) = Count m
   \<and> (0 < sint (Count a) \<longrightarrow>
        Average a = float64_quo (Value a) (float64_of_int64 (Count a)))
   \<and> (Count b = 0 \<longrightarrow> Average b = 0)"
proof -
  have c: "Count (foldl Increment (NewMetric name metricType t0) ts) = word_of_nat (length ts)"
    by (simp add: Count_foldl_Increment NewMetric_def)
  have "Value (NewMetric name metricType t0) = Finite False (of_nat 0)"
    by (simp add: NewMetric_def zero_float64_def)
  from Value_foldl_Increment [OF this, of ts]
  have v: "Value (foldl Increment (NewMetric name metricType t0) ts)
             = Finite False (of_nat (min (length ts) (2 ^ 53)))"
    by simp
  have w: "length ts \<le> 2 ^ 53 \<longrightarrow>
        Value (foldl Increment (NewMetric name metricType t0) ts) = Finite False (of_nat (length ts))"
    by (simp only: v) (simp add: min_def)
  have s: "length ts < 2 ^ 63 \<longrightarrow>
        sint (Count (foldl Increment (NewMetric name metricType t0) ts)) = int (length ts)"
    using c sint_word_of_nat_64 by simp
  have e: "Value m = Finite False (of_nat i) \<and> v = Finite False (of_nat j) \<and> i + j \<le> 2 ^ 53 \<longrightarrow>
        Value (IncrementBy m v now) = Finite False (of_nat (i + j))"
    using float64_add_nat [of i j] by (simp add: IncrementBy_def)
  have a: "0 < sint (Count a) \<longrightarrow>
        Average a = float64_quo (Value a) (float64_of_int64 (Count a))"
    by (auto simp: Average_def)
  have b: "Count b = 0 \<longrightarrow> Average b = 0"
    by (simp add: Average_def)
  have r: "Value (IncrementBy m v now) = float64_add (Value m) v
      \<and> Count (IncrementBy m v now) = Count m + 1
      \<and> Value (Set m v now) = v \<and> Count (Set m v now) = Count m"
    by (simp add: IncrementBy_def Set_def)
  show ?thesis
    using c v w s e a b r by (simp only: simp_thms)
qed

text \<open>
  Scenario E1: ten increments of a fresh counter give the count 10 and the value 10.0, and
  the average is then 1; an \<^verbatim>\<open>IncrementBy(5)\<close> on it gives the value 15.0.
\<close>

theorem C10_metric_arithmetic_witness:
  "Count (foldl Increment (NewMetric ''c'' MetricTypeCounter 0) (replicate 10 1)) = 10
   \<and> sint (Count (foldl Increment (NewMetric ''c'' MetricTypeCounter 0) (replicate 10 1))) = 10
   \<and> Value (foldl Increment (NewMetric ''c'' MetricTypeCounter 0) (replicate 10 1)) = Finite False 10
   \<and> Value (IncrementBy (foldl Increment (NewMetric ''c'' MetricTypeCounter 0) (replicate 10 1))
              (Finite False 5) 2) = Finite False 15
   \<and> 0 < sint (Count (foldl Increment (NewMetric ''c'' MetricTypeCounter 0) (replicate 10 1)))
   \<and> Average (foldl Increment (NewMetric ''c'' MetricTypeCounter 0) (replicate 10 1)) = Finite False 1
   \<and> Count (NewMetric ''c'' MetricTypeCounter 0) = 0
   \<and> Average (NewMetric ''c'' MetricTypeCounter 0) = Finite False 0"
proof -
  have ten: "float64_of_int64 10 = Finite False 10"
    using float64_of_int64_nat [of 10] by simp
  have one: "float64_round False 1 = Finite False 1"
    using float64_round_nat [of 1 False] by simp
  have fifteen: "float64_round False 15 = Finite False 15"
    using float64_round_nat [of 15 False] by simp
  show ?thesis
    using C10_metric_arithmetic [of "''c''" MetricTypeCounter 0 "replicate 10 1"
       "foldl Increment (NewMetric ''c'' MetricTypeCounter 0) (replicate 10 1)" "Finite False 5" 2 10 5
       "foldl Increment (NewMetric ''c'' MetricTypeCounter 0) (replicate 10 1)"
       "NewMetric ''c'' MetricTypeCounter 0"]
    by (simp add: ten one fifteen zero_float64_def NewMetric_def)
qed

section \<open>Unique sets\<close>

lemma UniqueSet_AddUnique_all:
  "UniqueSet (AddUnique_all m calls) = UniqueSet m |\<union>| fset_of_list (map fst calls)"
  unfolding AddUnique_all_def
  by (induction calls arbitrary: m) (auto simp: AddUnique_def Let_def)

lemma Count_AddUnique_all:
  "Count m = word_of_nat (fcard (UniqueSet m)) \<or> calls \<noteq> [] \<Longrightarrow>
   Count (AddUnique_all m calls) = word_of_nat (fcard (UniqueSet (AddUnique_all m calls)))"
  unfolding AddUnique_all_def
proof (induction calls arbitrary: m)
  case Nil
  then show ?case by simp
next
  case (Cons c calls)
  obtain v now where c: "c = (v, now)" by (cases c)
  have "Count (AddUnique m v now) = word_of_nat (fcard (UniqueSet (AddUnique m v now)))"
    by (simp add: AddUnique_def Let_def)
  then show ?case using Cons.IH [of "AddUnique m v now"] c by simp
qed

lemma fcard_fset_of_list: "fcard (fset_of_list xs) = length (remdups xs)"
  by (simp add: fcard.rep_eq fset_of_list.rep_eq length_remdups_card_conv)

text \<open>
  C7. A \<^verbatim>\<open>UniqueSet\<close> metric that is created and then mutated only by \<^verbatim>\<open>AddUnique\<close>
  has, after any sequence of calls, a \<^verbatim>\<open>Count\<close> equal to the cardinality of its unique
  set, which holds exactly the strings added, so the count is the number of distinct strings
  added (as the \<^verbatim>\<open>int64\<close> of that number, and as an integer below \<open>2 ^ 63\<close>).
\<close>

theorem C7_unique_count:
  "Count (AddUnique_all (NewMetric name MetricTypeSet t0) calls)
     = word_of_nat (fcard (UniqueSet (AddUnique_all (NewMetric name MetricTypeSet t0) calls)))
   \<and> UniqueSet (AddUnique_all (NewMetric name MetricTypeSet t0) calls) = fset_of_list (map fst calls)
   \<and> fcard (fset_of_list (map fst calls)) = length (remdups (map fst calls))
   \<and> (length (remdups (map fst calls)) < 2 ^ 63 \<longrightarrow>
        sint (Count (AddUnique_all (NewMetric name MetricTypeSet t0) calls))
          = int (length (remdups (map fst calls))))"
proof -
  let ?m = "AddUnique_all (NewMetric name MetricTypeSet t0) calls"
  have u: "UniqueSet ?m = fset_of_list (map fst calls)"
    by (simp add: UniqueSet_AddUnique_all NewMetric_def)
  have c: "Count ?m = word_of_nat (fcard (UniqueSet ?m))"
    by (rule Count_AddUnique_all) (simp add: NewMetric_def fcard_fempty)
  have s: "length (remdups (map fst calls)) < 2 ^ 63 \<longrightarrow>
        sint (Count ?m) = int (length (remdups (map fst calls)))"
  proof
    assume b: "length (remdups (map fst calls)) < 2 ^ 63"
    have "Count ?m = word_of_nat (length (remdups (map fst calls)))"
      using c unfolding u fcard_fset_of_list .
    then show "sint (Count ?m) = int (length (remdups (map fst calls)))"
      using sint_word_of_nat_64 [OF b] by simp
  qed
  show ?thesis using u c s fcard_fset_of_list [of "map fst calls"] by blast
qed

text \<open>Scenario E2: user_1, user_2, user_1, user_3, user_2 give the count 3.\<close>

theorem C7_unique_count_witness:
  "Count (AddUnique_all (NewMetric ''unique_users'' MetricTypeSet 0)
      [(''user_1'', 1), (''user_2'', 2), (''user_1'', 3), (''user_3'', 4), (''user_2'', 5)]) = 3
   \<and> sint (Count (AddUnique_all (NewMetric ''unique_users'' MetricTypeSet 0)
      [(''user_1'', 1), (''user_2'', 2), (''user_1'', 3), (''user_3'', 4), (''user_2'', 5)])) = 3"
  using C7_unique_count [of "''unique_users''" 0
      "[(''user_1'', 1), (''user_2'', 2), (''user_1'', 3), (''user_3'', 4), (''user_2'', 5)]"]
  by simp

section \<open>Window manager\<close>

lemma find_window_None:
  "find_window ws s = None \<Longrightarrow> s \<notin> StartTime ` {w \<in> set ws. \<not> Closed w}"
  by (induction ws) (auto simp: Equal_def split: if_splits)

lemma find_window_Some:
  "find_window ws s = Some i \<Longrightarrow> i < length ws \<and> StartTime (ws ! i) = s \<and> \<not> Closed (ws ! i)"
  by (induction ws arbitrary: i) (auto simp: Equal_def split: if_splits)

lemma GetOrCreateWindow_result:
  "GetOrCreateWindow wm t now = (i, wm') \<Longrightarrow>
     i < length (Windows wm') \<and> StartTime (Windows wm' ! i) = Truncate t (duration wm)
     \<and> \<not> Closed (Windows wm' ! i) \<and> duration wm' = duration wm"
  by (auto simp: GetOrCreateWindow_def Let_def NewTimeWindow_def nth_append
           split: option.splits dest: find_window_Some)

lemma close_expired_eq:
  "close_expired ws t =
     (map Close (filter (\<lambda>w. ShouldClose w t) ws),
      map (\<lambda>w. if ShouldClose w t then Close w else w) ws)"
  by (induction ws) (simp_all add: Let_def)

lemma CloseExpiredWindows_eq:
  "CloseExpiredWindows wm t =
     (map Close (filter (\<lambda>w. ShouldClose w t) (Windows wm)),
      wm\<lparr>Windows := map (\<lambda>w. if ShouldClose w t then Close w else w) (Windows wm)\<rparr>)"
  by (simp add: CloseExpiredWindows_def close_expired_eq)

lemma open_after_close_expired:
  "filter (\<lambda>w. \<not> Closed w) (map (\<lambda>w. if ShouldClose w t then Close w else w) ws)
     = filter (\<lambda>w. \<not> ShouldClose w t) (filter (\<lambda>w. \<not> Closed w) ws)"
  by (induction ws) (auto simp: Close_def ShouldClose_def)

lemma distinct_open_step:
  assumes "distinct (map StartTime (GetActiveWindows wm))"
  shows "distinct (map StartTime (GetActiveWindows (manager_step wm c)))"
proof (cases c)
  case (do_GetOrCreateWindow t now)
  show ?thesis
  proof (cases "find_window (Windows wm) (Truncate t (duration wm))")
    case None
    from find_window_None [OF None] assms show ?thesis
      using do_GetOrCreateWindow None
      by (auto simp: GetOrCreateWindow_def GetActiveWindows_def NewTimeWindow_def Let_def)
  next
    case (Some i)
    then show ?thesis using assms do_GetOrCreateWindow
      by (simp add: GetOrCreateWindow_def Let_def)
  qed
next
  case (do_CloseExpiredWindows t)
  have "distinct (map StartTime
          (filter (\<lambda>w. \<not> ShouldClose w t) (filter (\<lambda>w. \<not> Closed w) (Windows wm))))"
    using assms unfolding GetActiveWindows_def by (rule distinct_map_filter)
  moreover have "Windows (manager_step wm c)
      = map (\<lambda>w. if ShouldClose w t then Close w else w) (Windows wm)"
    using do_CloseExpiredWindows by (simp add: CloseExpiredWindows_eq)
  ultimately show ?thesis
    by (simp only: GetActiveWindows_def open_after_close_expired)
next
  case (do_Cleanup keep now)
  have "filter (\<lambda>w. \<not> Closed w) (filter (\<lambda>w. \<not> Closed w \<or> Sub now (EndTime w) < keep) (Windows wm))
        = filter (\<lambda>w. \<not> Closed w) (Windows wm)"
    by (induction "Windows wm") (auto intro: filter_cong)
  then show ?thesis using assms do_Cleanup
    by (simp add: Cleanup_def GetActiveWindows_def)
qed

lemma distinct_open_foldl:
  "distinct (map StartTime (GetActiveWindows wm)) \<Longrightarrow>
   distinct (map StartTime (GetActiveWindows (foldl manager_step wm cs)))"
  by (induction cs arbitrary: wm) (simp_all add: distinct_open_step)

text \<open>
  C3, as amended. In every state of the window manager reached from \<^verbatim>\<open>NewWindowManager\<close>
  by any sequence of \<^verbatim>\<open>GetOrCreateWindow\<close>, \<^verbatim>\<open>CloseExpiredWindows\<close> and
  \<^verbatim>\<open>Cleanup\<close>, no two open windows share a start instant.
\<close>

theorem C3_one_open_window_per_start:
  "distinct (map StartTime (GetActiveWindows (manager_run d cs)))"
  unfolding manager_run_def
  by (rule distinct_open_foldl) (simp add: GetActiveWindows_def NewWindowManager_def)

text \<open>
  C3 as stated fails: with one-minute windows, an event at 0:30 opens the window starting at
  0:00, a sweep at 1:01 closes it, and a late event at 0:45 then gets a second window with
  the same start, since the scan of \<^verbatim>\<open>GetOrCreateWindow\<close> skips closed windows.
\<close>

theorem C3_counterexample:
  "map StartTime (Windows (manager_run Minute
      [do_GetOrCreateWindow 30000000000 0, do_CloseExpiredWindows 61000000000,
       do_GetOrCreateWindow 45000000000 0])) = [0, 0]
   \<and> map Closed (Windows (manager_run Minute
      [do_GetOrCreateWindow 30000000000 0, do_CloseExpiredWindows 61000000000,
       do_GetOrCreateWindow 45000000000 0])) = [True, False]"
  by (simp add: manager_run_def NewWindowManager_def GetOrCreateWindow_def CloseExpiredWindows_def
        NewTimeWindow_def Truncate_def Minute_def Add_def Equal_def ShouldClose_def After_def
        Close_def Let_def)

lemma Truncate_idem: "Truncate (Truncate t d) d = Truncate t d"
  by (simp add: Truncate_def)

lemma Truncate_end: "Truncate s d = s \<Longrightarrow> Truncate (Add s d) d = Add s d"
  by (auto simp: Truncate_def Add_def split: if_splits)

lemma aligned_step:
  assumes "\<forall>w \<in> set (Windows wm). aligned (duration wm) w"
  shows "(\<forall>w \<in> set (Windows (manager_step wm c)). aligned (duration wm) w)
         \<and> duration (manager_step wm c) = duration wm"
proof (cases c)
  case (do_GetOrCreateWindow t now)
  then show ?thesis using assms
    by (auto simp: GetOrCreateWindow_def Let_def NewTimeWindow_def aligned_def Truncate_idem
          split: option.splits)
next
  case (do_CloseExpiredWindows t)
  then show ?thesis using assms
    by (auto simp: CloseExpiredWindows_eq aligned_def Close_def)
next
  case (do_Cleanup keep now)
  then show ?thesis using assms by (auto simp: Cleanup_def)
qed

lemma aligned_foldl:
  "\<forall>w \<in> set (Windows wm). aligned (duration wm) w \<Longrightarrow>
   (\<forall>w \<in> set (Windows (foldl manager_step wm cs)). aligned (duration wm) w)
   \<and> duration (foldl manager_step wm cs) = duration wm"
proof (induction cs arbitrary: wm)
  case Nil
  then show ?case by simp
next
  case (Cons c cs)
  from aligned_step [OF Cons.prems, of c]
  have 1: "\<forall>w \<in> set (Windows (manager_step wm c)). aligned (duration (manager_step wm c)) w"
    and 2: "duration (manager_step wm c) = duration wm" by simp_all
  from Cons.IH [OF 1] 2 show ?case by simp
qed

lemma aligned_run:
  "w \<in> set (Windows (manager_run d cs)) \<Longrightarrow> aligned d w"
  "duration (manager_run d cs) = d"
  using aligned_foldl [of "NewWindowManager d" cs]
  by (simp_all add: manager_run_def NewWindowManager_def)

text \<open>
  C6. \<^verbatim>\<open>IsActive(t)\<close> holds iff the window is not closed and \<open>t\<close> is before its end,
  \<^verbatim>\<open>ShouldClose(t)\<close> iff it is not closed and \<open>t\<close> is after its end; at the end itself
  both are false; and for a window of a manager (reached from \<^verbatim>\<open>NewWindowManager\<close> by any
  sequence of calls), \<^verbatim>\<open>GetOrCreateWindow\<close> at the window's end yields a window that
  starts at that end.
\<close>

theorem C6_window_boundary:
  "IsActive w t = (\<not> Closed w \<and> t < EndTime w)
   \<and> ShouldClose w t = (\<not> Closed w \<and> EndTime w < t)
   \<and> \<not> IsActive w (EndTime w)
   \<and> \<not> ShouldClose w (EndTime w)
   \<and> (w \<in> set (Windows (manager_run d cs)) \<longrightarrow>
        (case GetOrCreateWindow (manager_run d cs) (EndTime w) now of
           (i, wm') \<Rightarrow> i < length (Windows wm') \<and> StartTime (Windows wm' ! i) = EndTime w))"
proof -
  have "w \<in> set (Windows (manager_run d cs)) \<longrightarrow>
        (case GetOrCreateWindow (manager_run d cs) (EndTime w) now of
           (i, wm') \<Rightarrow> i < length (Windows wm') \<and> StartTime (Windows wm' ! i) = EndTime w)"
  proof
    assume w: "w \<in> set (Windows (manager_run d cs))"
    obtain i wm' where g: "GetOrCreateWindow (manager_run d cs) (EndTime w) now = (i, wm')"
      by (cases "GetOrCreateWindow (manager_run d cs) (EndTime w) now")
    from aligned_run(1) [OF w] have "Truncate (EndTime w) d = EndTime w"
      by (simp add: aligned_def Truncate_end)
    with GetOrCreateWindow_result [OF g] aligned_run(2) [of d cs] g
    show "case GetOrCreateWindow (manager_run d cs) (EndTime w) now of
           (i, wm') \<Rightarrow> i < length (Windows wm') \<and> StartTime (Windows wm' ! i) = EndTime w"
      by simp
  qed
  then show ?thesis
    by (simp add: IsActive_def ShouldClose_def Before_def After_def)
qed

text \<open>The one-minute window opened by an event at 0:30, and an event at 1:00.\<close>

theorem C6_window_boundary_witness:
  "NewTimeWindow 0 Minute 0 \<in> set (Windows (manager_run Minute [do_GetOrCreateWindow 30000000000 0]))
   \<and> EndTime (NewTimeWindow 0 Minute 0) = 60000000000
   \<and> (case GetOrCreateWindow (manager_run Minute [do_GetOrCreateWindow 30000000000 0])
              60000000000 7 of
        (i, wm') \<Rightarrow> i < length (Windows wm') \<and> StartTime (Windows wm' ! i) = 60000000000)"
proof -
  have m: "NewTimeWindow 0 Minute 0
        \<in> set (Windows (manager_run Minute [do_GetOrCreateWindow 30000000000 0]))"
    by (simp add: manager_run_def NewWindowManager_def GetOrCreateWindow_def Let_def
          Truncate_def Minute_def)
  have e: "EndTime (NewTimeWindow 0 Minute 0) = 60000000000"
    by (simp add: NewTimeWindow_def Add_def Minute_def)
  from C6_window_boundary [of "NewTimeWindow 0 Minute 0" 0 Minute
      "[do_GetOrCreateWindow 30000000000 0]" 7] m e
  show ?thesis by simp
qed

section \<open>Get-or-create of metrics\<close>

lemma Type_apply_mutator: "Metric.Type (apply_mutator f m) = Metric.Type m"
  by (cases f) (simp_all add: Increment_def IncrementBy_def Set_def Observe_def AddUnique_def Let_def)

lemma Name_apply_mutator: "Name (apply_mutator f m) = Name m"
  by (cases f) (simp_all add: Increment_def IncrementBy_def Set_def Observe_def AddUnique_def Let_def)

lemma allocated_GetMetric:
  assumes "allocated ms st" and "GetMetric ms name ty now st = (p, ms', st')"
  shows "allocated ms' st'" and "MetricsSnapshot.Metrics ms' name = Some p" and "p < length st'"
    and "\<forall>q < length st. st' ! q = st ! q" and "length st \<le> length st'"
    and "\<forall>n q. MetricsSnapshot.Metrics ms n = Some q \<longrightarrow> MetricsSnapshot.Metrics ms' n = Some q"
    and "MetricsSnapshot.Metrics ms name = None \<longrightarrow> Metric.Type (st' ! p) = ty"
proof -
  show "allocated ms' st'"
  proof (cases "MetricsSnapshot.Metrics ms name")
    case None
    then have "ran (MetricsSnapshot.Metrics ms') \<subseteq> insert (length st) (ran (MetricsSnapshot.Metrics ms))"
      and "length st' = Suc (length st)"
      using assms(2) by (auto simp: GetMetric_def ran_def split: if_splits)
    then show ?thesis using assms(1) unfolding allocated_def by (auto simp: less_Suc_eq)
  next
    case (Some q)
    then show ?thesis using assms by (simp add: GetMetric_def)
  qed
  show "MetricsSnapshot.Metrics ms' name = Some p" "p < length st'"
    "\<forall>q < length st. st' ! q = st ! q" "length st \<le> length st'"
    "\<forall>n q. MetricsSnapshot.Metrics ms n = Some q \<longrightarrow> MetricsSnapshot.Metrics ms' n = Some q"
    "MetricsSnapshot.Metrics ms name = None \<longrightarrow> Metric.Type (st' ! p) = ty"
    using assms
    by (auto simp: GetMetric_def allocated_def nth_append ran_def NewMetric_def
           split: option.splits if_splits)
qed

lemma GetMetric_present:
  "MetricsSnapshot.Metrics ms name = Some p \<Longrightarrow> GetMetric ms name ty now st = (p, ms, st)"
  by (simp add: GetMetric_def)

lemma holds_step: "holds name p ty s \<Longrightarrow> holds name p ty (snapshot_step s c)"
proof (cases s; cases c)
  fix ms st n k now
  assume h: "holds name p ty s" and s: "s = (ms, st)" and c: "c = do_GetMetric n k now"
  obtain q ms' st' where g: "GetMetric ms n k now st = (q, ms', st')"
    by (cases "GetMetric ms n k now st")
  from h s have a: "allocated ms st" by (simp add: holds_def)
  from allocated_GetMetric [OF a g] h s
  have "holds name p ty (ms', st')" by (simp add: holds_def)
  then show "holds name p ty (snapshot_step s c)" using s c g by simp
next
  fix ms st q f
  assume h: "holds name p ty s" and s: "s = (ms, st)" and c: "c = do_mutator q f"
  then show "holds name p ty (snapshot_step s c)"
    by (cases "q = p") (auto simp: holds_def call_def allocated_def Type_apply_mutator)
qed

lemma holds_run: "holds name p ty s \<Longrightarrow> holds name p ty (snapshot_run s cs)"
  unfolding snapshot_run_def
  by (induction cs arbitrary: s) (simp_all add: holds_step)

text \<open>
  C8. On a snapshot whose pointers are allocated, once \<^verbatim>\<open>GetMetric(name, k1)\<close> has
  returned the metric \<open>m\<close>, then after any further calls of \<^verbatim>\<open>GetMetric\<close> and of the
  mutators, \<^verbatim>\<open>GetMetric(name, k2)\<close> returns the same pointer \<open>m\<close> and leaves the map
  and the store as they are; the kind of \<open>m\<close> is the one it had when the first call
  returned, which is \<open>k1\<close> when that call created the metric.
\<close>

theorem C8_GetMetric_idempotent:
  assumes "allocated ms st"
    and "GetMetric ms name k1 t1 st = (m, ms1, st1)"
    and "snapshot_run (ms1, st1) cs = (ms2, st2)"
  shows "GetMetric ms2 name k2 t2 st2 = (m, ms2, st2)
         \<and> m < length st2
         \<and> Metric.Type (st2 ! m) = Metric.Type (st1 ! m)
         \<and> (MetricsSnapshot.Metrics ms name = None \<longrightarrow> Metric.Type (st2 ! m) = k1)"
proof -
  from allocated_GetMetric [OF assms(1,2)]
  have h1: "holds name m (Metric.Type (st1 ! m)) (ms1, st1)"
    and k: "MetricsSnapshot.Metrics ms name = None \<longrightarrow> Metric.Type (st1 ! m) = k1"
    by (simp_all add: holds_def)
  from holds_run [OF h1, of cs] assms(3)
  have h2: "holds name m (Metric.Type (st1 ! m)) (ms2, st2)" by simp
  then have "GetMetric ms2 name k2 t2 st2 = (m, ms2, st2)"
    by (simp add: holds_def GetMetric_present)
  with h2 k show ?thesis by (simp add: holds_def)
qed

text \<open>
  A snapshot that holds \<^verbatim>\<open>clicks\<close>: \<^verbatim>\<open>pageviews\<close> is created as a counter,
  incremented, and asked for again as a gauge.
\<close>

theorem C8_GetMetric_idempotent_witness:
  "(case snapshot_run (NewMetricsSnapshot 0, []) [do_GetMetric ''clicks'' MetricTypeCounter 0] of
      (ms, st) \<Rightarrow>
        allocated ms st
        \<and> (case GetMetric ms ''pageviews'' MetricTypeCounter 1 st of
             (m, ms1, st1) \<Rightarrow>
               (case snapshot_run (ms1, st1) [do_mutator m (call_Increment 2)] of
                  (ms2, st2) \<Rightarrow>
                    GetMetric ms2 ''pageviews'' MetricTypeGauge 3 st2 = (m, ms2, st2)
                    \<and> Metric.Type (st2 ! m) = MetricTypeCounter
                    \<and> Count (st2 ! m) = 1)))"
proof -
  obtain ms st
    where s: "snapshot_run (NewMetricsSnapshot 0, []) [do_GetMetric ''clicks'' MetricTypeCounter 0]
              = (ms, st)"
    by (cases "snapshot_run (NewMetricsSnapshot 0, []) [do_GetMetric ''clicks'' MetricTypeCounter 0]")
  have a: "allocated ms st"
    using s by (auto simp: allocated_def NewMetricsSnapshot_def snapshot_run_def GetMetric_def)
  obtain m ms1 st1
    where g: "GetMetric ms ''pageviews'' MetricTypeCounter 1 st = (m, ms1, st1)"
    by (cases "GetMetric ms ''pageviews'' MetricTypeCounter 1 st")
  obtain ms2 st2 where r: "snapshot_run (ms1, st1) [do_mutator m (call_Increment 2)] = (ms2, st2)"
    by (cases "snapshot_run (ms1, st1) [do_mutator m (call_Increment 2)]")
  have n: "MetricsSnapshot.Metrics ms ''pageviews'' = None"
    using s by (auto simp: NewMetricsSnapshot_def snapshot_run_def GetMetric_def)
  have c: "Count (st2 ! m) = 1"
    using s g r by (auto simp: GetMetric_def NewMetricsSnapshot_def snapshot_run_def call_def
        NewMetric_def Increment_def)
  from C8_GetMetric_idempotent [OF a g r, of MetricTypeGauge 3] n
  have "GetMetric ms2 ''pageviews'' MetricTypeGauge 3 st2 = (m, ms2, st2)"
    and "Metric.Type (st2 ! m) = MetricTypeCounter" by blast+
  with s a g r c show ?thesis by simp
qed

section \<open>The aggregator seen through its global metrics\<close>

lemma on_metric_id: "on_metric p (\<lambda>m. m) a = a"
  by (simp add: on_metric_def call_def)

lemma with_global_id:
  "with_global name ty (\<lambda>m. m) now a = snd (globalMetrics_GetMetric a name ty now)"
  by (simp add: with_global_def on_metric_id case_prod_unfold)

lemma processPageviewMetrics_chain:
  "processPageviewMetrics a event now =
     (let a1 = with_global ''pageviews'' MetricTypeCounter (\<lambda>m. Increment m now) now a
      in case Properties event ''page'' of
           Some (any_string page) \<Rightarrow>
             with_global (''page_views:'' @ page) MetricTypeCounter (\<lambda>m. Increment m now) now
               (with_global ''unique_pages'' MetricTypeSet (\<lambda>m. AddUnique m page now) now a1)
         | _ \<Rightarrow> a1)"
  unfolding processPageviewMetrics_def with_global_def Let_def case_prod_unfold
  by (rule refl)

lemma processClickMetrics_chain:
  "processClickMetrics a event now =
     (let a1 = with_global ''clicks'' MetricTypeCounter (\<lambda>m. Increment m now) now a
      in case Properties event ''element'' of
           Some (any_string element) \<Rightarrow>
             with_global (''clicks:'' @ element) MetricTypeCounter (\<lambda>m. Increment m now) now a1
         | _ \<Rightarrow> a1)"
  unfolding processClickMetrics_def with_global_def Let_def case_prod_unfold
  by (rule refl)

lemma processPurchaseMetrics_chain:
  "processPurchaseMetrics a event now =
     (let a1 = with_global ''purchases'' MetricTypeCounter (\<lambda>m. Increment m now) now a
      in case Properties event ''amount'' of
           Some (any_float64 amount) \<Rightarrow>
             with_global ''revenue_histogram'' MetricTypeHistogram (\<lambda>m. Observe m amount now) now
               (with_global ''revenue'' MetricTypeCounter (\<lambda>m. IncrementBy m amount now) now a1)
         | _ \<Rightarrow> a1)"
  unfolding processPurchaseMetrics_def with_global_def Let_def case_prod_unfold
  by (rule refl)

lemma updateGlobalMetrics_chain:
  "updateGlobalMetrics a event now =
     dispatch
       (with_global ''unique_sessions'' MetricTypeSet
          (if SessionID event \<noteq> '''' then (\<lambda>m. AddUnique m (SessionID event) now) else (\<lambda>m. m)) now
       (with_global ''unique_users'' MetricTypeSet
          (if UserID event \<noteq> '''' then (\<lambda>m. AddUnique m (UserID event) now) else (\<lambda>m. m)) now
       (with_global (''events_by_type:'' @ Event.Type event) MetricTypeCounter
          (\<lambda>m. Increment m now) now
       (with_global ''total_events'' MetricTypeCounter (\<lambda>m. Increment m now) now a))))
       event now"
proof -
  have u: "\<And>c p f x. (if c then on_metric p f x else x) = on_metric p (if c then f else (\<lambda>m. m)) x"
    by (simp add: on_metric_id)
  show ?thesis
    unfolding updateGlobalMetrics_def dispatch_def [symmetric] u
    unfolding with_global_def Let_def case_prod_unfold
    by (rule refl)
qed

lemma updateWindowMetrics_chain:
  "updateWindowMetrics a window event now =
     with_window window ''active_users'' MetricTypeSet
       (if UserID event \<noteq> '''' then (\<lambda>m. AddUnique m (UserID event) now) else (\<lambda>m. m)) now
     (with_window window (''events:'' @ Event.Type event) MetricTypeCounter
        (\<lambda>m. Increment m now) now
     (with_window window ''events'' MetricTypeCounter (\<lambda>m. Increment m now) now a))"
proof -
  have u: "\<And>c p f x. (if c then on_metric p f x else x) = on_metric p (if c then f else (\<lambda>m. m)) x"
    by (simp add: on_metric_id)
  show ?thesis
    unfolding updateWindowMetrics_def u
    unfolding with_window_def Let_def case_prod_unfold
    by (rule refl)
qed

lemma with_global_cases:
  obtains (present) p where "MetricsSnapshot.Metrics (globalMetrics a) name = Some p"
      and "with_global name ty f now a = a\<lparr>heap := (heap a)[p := f (heap a ! p)]\<rparr>"
    | (absent) "MetricsSnapshot.Metrics (globalMetrics a) name = None"
      and "with_global name ty f now a =
             a\<lparr>globalMetrics := (globalMetrics a)\<lparr>MetricsSnapshot.Metrics :=
                   (MetricsSnapshot.Metrics (globalMetrics a))(name \<mapsto> length (heap a))\<rparr>,
               heap := heap a @ [f (NewMetric name ty now)]\<rparr>"
proof (cases "MetricsSnapshot.Metrics (globalMetrics a) name")
  case None
  then have "with_global name ty f now a =
             a\<lparr>globalMetrics := (globalMetrics a)\<lparr>MetricsSnapshot.Metrics :=
                   (MetricsSnapshot.Metrics (globalMetrics a))(name \<mapsto> length (heap a))\<rparr>,
               heap := heap a @ [f (NewMetric name ty now)]\<rparr>"
    by (simp add: with_global_def globalMetrics_GetMetric_def GetMetric_def on_metric_def call_def)
  with None show ?thesis by (rule absent)
next
  case (Some p)
  then have "with_global name ty f now a = a\<lparr>heap := (heap a)[p := f (heap a ! p)]\<rparr>"
    by (simp add: with_global_def globalMetrics_GetMetric_def GetMetric_def on_metric_def call_def)
  with Some show ?thesis by (rule present)
qed

lemma same_frame_with_global: "same_frame a (with_global name ty f now a)"
  by (rule with_global_cases [of a name ty f now]) (simp_all add: same_frame_def)

lemma global_metric_with_global:
  assumes "wf_heap a"
  shows "global_metric (with_global name ty f now a) = touch (global_metric a) name ty f now"
proof (rule with_global_cases [of a name ty f now])
  fix p
  assume p: "MetricsSnapshot.Metrics (globalMetrics a) name = Some p"
    and e: "with_global name ty f now a = a\<lparr>heap := (heap a)[p := f (heap a ! p)]\<rparr>"
  from assms p have len: "p < length (heap a)"
    by (auto simp: wf_heap_def allocated_def ran_def)
  have inj: "\<And>n q. MetricsSnapshot.Metrics (globalMetrics a) n = Some q \<Longrightarrow> q = p \<Longrightarrow> n = name"
    using assms p unfolding wf_heap_def by (metis domI inj_onD)
  show ?thesis
  proof
    fix n
    show "global_metric (with_global name ty f now a) n = touch (global_metric a) name ty f now n"
      using p len inj [of n] unfolding e
      by (cases "MetricsSnapshot.Metrics (globalMetrics a) n")
         (auto simp: global_metric_def touch_def nth_list_update)
  qed
next
  assume p: "MetricsSnapshot.Metrics (globalMetrics a) name = None"
    and e: "with_global name ty f now a =
             a\<lparr>globalMetrics := (globalMetrics a)\<lparr>MetricsSnapshot.Metrics :=
                   (MetricsSnapshot.Metrics (globalMetrics a))(name \<mapsto> length (heap a))\<rparr>,
               heap := heap a @ [f (NewMetric name ty now)]\<rparr>"
  have len: "\<And>n q. MetricsSnapshot.Metrics (globalMetrics a) n = Some q \<Longrightarrow> q < length (heap a)"
    using assms by (auto simp: wf_heap_def allocated_def ran_def)
  show ?thesis
  proof
    fix n
    show "global_metric (with_global name ty f now a) n = touch (global_metric a) name ty f now n"
      using p len [of n] unfolding e
      by (cases "MetricsSnapshot.Metrics (globalMetrics a) n")
         (auto simp: global_metric_def touch_def nth_append)
  qed
qed

lemma wf_heap_with_global:
  assumes "wf_heap a"
  shows "wf_heap (with_global name ty f now a)"
proof (rule with_global_cases [of a name ty f now])
  fix p
  assume e: "with_global name ty f now a = a\<lparr>heap := (heap a)[p := f (heap a ! p)]\<rparr>"
  show ?thesis using assms unfolding e by (simp add: wf_heap_def allocated_def)
next
  assume p: "MetricsSnapshot.Metrics (globalMetrics a) name = None"
    and e: "with_global name ty f now a =
             a\<lparr>globalMetrics := (globalMetrics a)\<lparr>MetricsSnapshot.Metrics :=
                   (MetricsSnapshot.Metrics (globalMetrics a))(name \<mapsto> length (heap a))\<rparr>,
               heap := heap a @ [f (NewMetric name ty now)]\<rparr>"
  let ?g = "MetricsSnapshot.Metrics (globalMetrics a)"
  have r: "ran (?g(name \<mapsto> length (heap a))) = insert (length (heap a)) (ran ?g)"
    using p by simp
  have g: "\<forall>q \<in> ran ?g. q < length (heap a)"
    using assms by (simp add: wf_heap_def allocated_def)
  have w: "\<forall>w \<in> set (Windows (windowManager a)).
             (\<forall>q \<in> ran (MetricsSnapshot.Metrics (TimeWindow.Metrics w)). q < length (heap a))
             \<and> ran (MetricsSnapshot.Metrics (TimeWindow.Metrics w)) \<inter> ran ?g = {}"
    using assms by (simp add: wf_heap_def allocated_def)
  have i: "inj_on ?g (dom ?g)"
    using assms by (simp add: wf_heap_def)
  have i': "inj_on (?g(name \<mapsto> length (heap a))) (dom (?g(name \<mapsto> length (heap a))))"
  proof (rule inj_onI)
    fix x y
    assume x: "x \<in> dom (?g(name \<mapsto> length (heap a)))"
      and y: "y \<in> dom (?g(name \<mapsto> length (heap a)))"
      and eq: "(?g(name \<mapsto> length (heap a))) x = (?g(name \<mapsto> length (heap a))) y"
    show "x = y"
    proof (cases "x = name"; cases "y = name")
      assume "x \<noteq> name" "y \<noteq> name"
      with x y eq i show ?thesis by (auto dest: inj_onD)
    next
      assume "x = name" "y \<noteq> name"
      with y eq g show ?thesis by (auto simp: ran_def)
    next
      assume "x \<noteq> name" "y = name"
      with x eq g show ?thesis by (auto simp: ran_def)
    qed simp
  qed
  show ?thesis
    unfolding e wf_heap_def allocated_def
    using g w i' r by (auto simp: less_Suc_eq)
qed

lemma with_window_cases:
  obtains (present) p where
        "MetricsSnapshot.Metrics (TimeWindow.Metrics (Windows (windowManager a) ! i)) name = Some p"
      and "with_window i name ty f now a = a\<lparr>heap := (heap a)[p := f (heap a ! p)]\<rparr>"
    | (absent)
        "MetricsSnapshot.Metrics (TimeWindow.Metrics (Windows (windowManager a) ! i)) name = None"
      and "with_window i name ty f now a =
             a\<lparr>windowManager := (windowManager a)\<lparr>Windows := (Windows (windowManager a))
                   [i := (Windows (windowManager a) ! i)\<lparr>TimeWindow.Metrics :=
                      (TimeWindow.Metrics (Windows (windowManager a) ! i))\<lparr>MetricsSnapshot.Metrics :=
                        (MetricsSnapshot.Metrics (TimeWindow.Metrics (Windows (windowManager a) ! i)))
                          (name \<mapsto> length (heap a))\<rparr>\<rparr>]\<rparr>,
               heap := heap a @ [f (NewMetric name ty now)]\<rparr>"
proof (cases "MetricsSnapshot.Metrics (TimeWindow.Metrics (Windows (windowManager a) ! i)) name")
  case None
  then have "with_window i name ty f now a =
             a\<lparr>windowManager := (windowManager a)\<lparr>Windows := (Windows (windowManager a))
                   [i := (Windows (windowManager a) ! i)\<lparr>TimeWindow.Metrics :=
                      (TimeWindow.Metrics (Windows (windowManager a) ! i))\<lparr>MetricsSnapshot.Metrics :=
                        (MetricsSnapshot.Metrics (TimeWindow.Metrics (Windows (windowManager a) ! i)))
                          (name \<mapsto> length (heap a))\<rparr>\<rparr>]\<rparr>,
               heap := heap a @ [f (NewMetric name ty now)]\<rparr>"
    by (simp add: with_window_def window_GetMetric_def GetMetric_def on_metric_def call_def Let_def)
  with None show ?thesis by (rule absent)
next
  case (Some p)
  then have "with_window i name ty f now a = a\<lparr>heap := (heap a)[p := f (heap a ! p)]\<rparr>"
    by (simp add: with_window_def window_GetMetric_def GetMetric_def on_metric_def call_def Let_def)
  with Some show ?thesis by (rule present)
qed

lemma map_shape_update:
  "map window_shape (ws[i := (ws ! i)\<lparr>TimeWindow.Metrics := ms\<rparr>]) = map window_shape ws"
proof (cases "i < length ws")
  case True
  show ?thesis
  proof (rule nth_equalityI)
    fix j
    assume "j < length (map window_shape (ws[i := (ws ! i)\<lparr>TimeWindow.Metrics := ms\<rparr>]))"
    then show "map window_shape (ws[i := (ws ! i)\<lparr>TimeWindow.Metrics := ms\<rparr>]) ! j
               = map window_shape ws ! j"
      using True by (cases "j = i") (simp_all add: window_shape_def)
  qed simp
next
  case False
  then show ?thesis by (simp add: list_update_beyond)
qed

lemma with_window_frame:
  "delivered (with_window i name ty f now a) = delivered a"
  "onWindowClosed (with_window i name ty f now a) = onWindowClosed a"
  "globalMetrics (with_window i name ty f now a) = globalMetrics a"
  "map window_shape (Windows (windowManager (with_window i name ty f now a)))
     = map window_shape (Windows (windowManager a))"
  "duration (windowManager (with_window i name ty f now a)) = duration (windowManager a)"
proof -
  show "delivered (with_window i name ty f now a) = delivered a"
    by (rule with_window_cases [of a i name ty f now]) simp_all
  show "onWindowClosed (with_window i name ty f now a) = onWindowClosed a"
    by (rule with_window_cases [of a i name ty f now]) simp_all
  show "globalMetrics (with_window i name ty f now a) = globalMetrics a"
    by (rule with_window_cases [of a i name ty f now]) simp_all
  show "map window_shape (Windows (windowManager (with_window i name ty f now a)))
     = map window_shape (Windows (windowManager a))"
    by (rule with_window_cases [of a i name ty f now]) (simp_all add: map_shape_update)
  show "duration (windowManager (with_window i name ty f now a)) = duration (windowManager a)"
    by (rule with_window_cases [of a i name ty f now]) simp_all
qed

lemma global_metric_with_window:
  assumes "wf_heap a" and "i < length (Windows (windowManager a))"
  shows "global_metric (with_window i name ty f now a) = global_metric a"
proof (rule with_window_cases [of a i name ty f now])
  fix p
  assume p: "MetricsSnapshot.Metrics (TimeWindow.Metrics (Windows (windowManager a) ! i)) name = Some p"
    and e: "with_window i name ty f now a = a\<lparr>heap := (heap a)[p := f (heap a ! p)]\<rparr>"
  have "Windows (windowManager a) ! i \<in> set (Windows (windowManager a))"
    using assms(2) by simp
  with assms(1) p have "p \<notin> ran (MetricsSnapshot.Metrics (globalMetrics a))"
    unfolding wf_heap_def by (auto simp: ran_def)
  then have "\<And>n q. MetricsSnapshot.Metrics (globalMetrics a) n = Some q \<Longrightarrow> p \<noteq> q"
    by (auto simp: ran_def)
  then show ?thesis unfolding e
    by (auto simp: global_metric_def fun_eq_iff map_option_case split: option.splits)
next
  assume e: "with_window i name ty f now a =
             a\<lparr>windowManager := (windowManager a)\<lparr>Windows := (Windows (windowManager a))
                   [i := (Windows (windowManager a) ! i)\<lparr>TimeWindow.Metrics :=
                      (TimeWindow.Metrics (Windows (windowManager a) ! i))\<lparr>MetricsSnapshot.Metrics :=
                        (MetricsSnapshot.Metrics (TimeWindow.Metrics (Windows (windowManager a) ! i)))
                          (name \<mapsto> length (heap a))\<rparr>\<rparr>]\<rparr>,
               heap := heap a @ [f (NewMetric name ty now)]\<rparr>"
  have "\<And>n q. MetricsSnapshot.Metrics (globalMetrics a) n = Some q \<Longrightarrow> q < length (heap a)"
    using assms(1) by (auto simp: wf_heap_def allocated_def ran_def)
  then show ?thesis unfolding e
    by (auto simp: global_metric_def fun_eq_iff map_option_case nth_append split: option.splits)
qed

lemma wf_heap_with_window:
  assumes "wf_heap a" and "i < length (Windows (windowManager a))"
  shows "wf_heap (with_window i name ty f now a)"
proof (rule with_window_cases [of a i name ty f now])
  fix p
  assume e: "with_window i name ty f now a = a\<lparr>heap := (heap a)[p := f (heap a ! p)]\<rparr>"
  show ?thesis using assms(1) unfolding e by (simp add: wf_heap_def allocated_def)
next
  let ?ws = "Windows (windowManager a)"
  let ?g = "MetricsSnapshot.Metrics (globalMetrics a)"
  let ?m = "MetricsSnapshot.Metrics (TimeWindow.Metrics (?ws ! i))"
  assume p: "?m name = None"
    and e: "with_window i name ty f now a =
             a\<lparr>windowManager := (windowManager a)\<lparr>Windows := ?ws
                   [i := (?ws ! i)\<lparr>TimeWindow.Metrics :=
                      (TimeWindow.Metrics (?ws ! i))\<lparr>MetricsSnapshot.Metrics :=
                        ?m(name \<mapsto> length (heap a))\<rparr>\<rparr>]\<rparr>,
               heap := heap a @ [f (NewMetric name ty now)]\<rparr>"
  have g: "\<forall>q \<in> ran ?g. q < length (heap a)"
    using assms(1) by (simp add: wf_heap_def allocated_def)
  have w: "\<forall>w \<in> set ?ws.
             (\<forall>q \<in> ran (MetricsSnapshot.Metrics (TimeWindow.Metrics w)). q < length (heap a))
             \<and> ran (MetricsSnapshot.Metrics (TimeWindow.Metrics w)) \<inter> ran ?g = {}"
    using assms(1) by (simp add: wf_heap_def allocated_def)
  have inj: "inj_on ?g (dom ?g)"
    using assms(1) by (simp add: wf_heap_def)
  have r: "ran (?m(name \<mapsto> length (heap a))) = insert (length (heap a)) (ran ?m)"
    using p by simp
  have wi: "(\<forall>q \<in> ran ?m. q < length (heap a)) \<and> ran ?m \<inter> ran ?g = {}"
    using w assms(2) nth_mem by blast
  have new: "length (heap a) \<notin> ran ?g" using g by auto
  have s: "set (?ws[i := (?ws ! i)\<lparr>TimeWindow.Metrics :=
                      (TimeWindow.Metrics (?ws ! i))\<lparr>MetricsSnapshot.Metrics :=
                        ?m(name \<mapsto> length (heap a))\<rparr>\<rparr>])
        \<subseteq> insert ((?ws ! i)\<lparr>TimeWindow.Metrics :=
                      (TimeWindow.Metrics (?ws ! i))\<lparr>MetricsSnapshot.Metrics :=
                        ?m(name \<mapsto> length (heap a))\<rparr>\<rparr>) (set ?ws)"
    by (rule set_update_subset_insert)
  let ?w' = "(?ws ! i)\<lparr>TimeWindow.Metrics :=
                      (TimeWindow.Metrics (?ws ! i))\<lparr>MetricsSnapshot.Metrics :=
                        ?m(name \<mapsto> length (heap a))\<rparr>\<rparr>"
  have w': "\<forall>x \<in> set (?ws[i := ?w']).
             (\<forall>q \<in> ran (MetricsSnapshot.Metrics (TimeWindow.Metrics x)). q < Suc (length (heap a)))
             \<and> ran (MetricsSnapshot.Metrics (TimeWindow.Metrics x)) \<inter> ran ?g = {}"
  proof
    fix x
    assume "x \<in> set (?ws[i := ?w'])"
    with s have "x = ?w' \<or> x \<in> set ?ws" by auto
    then show "(\<forall>q \<in> ran (MetricsSnapshot.Metrics (TimeWindow.Metrics x)). q < Suc (length (heap a)))
             \<and> ran (MetricsSnapshot.Metrics (TimeWindow.Metrics x)) \<inter> ran ?g = {}"
    proof
      assume x: "x = ?w'"
      have "MetricsSnapshot.Metrics (TimeWindow.Metrics x) = ?m(name \<mapsto> length (heap a))"
        unfolding x by simp
      then show ?thesis using r wi new by (auto simp: less_Suc_eq)
    next
      assume "x \<in> set ?ws"
      with w show ?thesis by (auto simp: less_Suc_eq)
    qed
  qed
  show ?thesis
    unfolding e wf_heap_def allocated_def
    using g inj w' by (simp add: less_Suc_eq)
qed

lemma touch_apply:
  "touch v name ty f now n =
     (if n = name then Some (f (case v name of None \<Rightarrow> NewMetric name ty now | Some m \<Rightarrow> m))
      else v n)"
  by (simp add: touch_def)

lemma frame_with_global:
  "windowManager (with_global name ty f now a) = windowManager a"
  "delivered (with_global name ty f now a) = delivered a"
  "onWindowClosed (with_global name ty f now a) = onWindowClosed a"
  using same_frame_with_global [of a name ty f now] by (simp_all add: same_frame_def)

lemma dispatch_chain:
  "dispatch a event now =
     (if Event.Type event = ''pageview'' then
        (case Properties event ''page'' of
           Some (any_string page) \<Rightarrow>
             with_global (''page_views:'' @ page) MetricTypeCounter (\<lambda>m. Increment m now) now
               (with_global ''unique_pages'' MetricTypeSet (\<lambda>m. AddUnique m page now) now
                 (with_global ''pageviews'' MetricTypeCounter (\<lambda>m. Increment m now) now a))
         | _ \<Rightarrow> with_global ''pageviews'' MetricTypeCounter (\<lambda>m. Increment m now) now a)
      else if Event.Type event = ''click'' then
        (case Properties event ''element'' of
           Some (any_string element) \<Rightarrow>
             with_global (''clicks:'' @ element) MetricTypeCounter (\<lambda>m. Increment m now) now
               (with_global ''clicks'' MetricTypeCounter (\<lambda>m. Increment m now) now a)
         | _ \<Rightarrow> with_global ''clicks'' MetricTypeCounter (\<lambda>m. Increment m now) now a)
      else if Event.Type event = ''purchase'' then
        (case Properties event ''amount'' of
           Some (any_float64 amount) \<Rightarrow>
             with_global ''revenue_histogram'' MetricTypeHistogram (\<lambda>m. Observe m amount now) now
               (with_global ''revenue'' MetricTypeCounter (\<lambda>m. IncrementBy m amount now) now
                 (with_global ''purchases'' MetricTypeCounter (\<lambda>m. Increment m now) now a))
         | _ \<Rightarrow> with_global ''purchases'' MetricTypeCounter (\<lambda>m. Increment m now) now a)
      else a)"
  by (simp add: dispatch_def processPageviewMetrics_chain processClickMetrics_chain
        processPurchaseMetrics_chain Let_def)

lemma wf_heap_dispatch: "wf_heap a \<Longrightarrow> wf_heap (dispatch a event now)"
  by (simp add: dispatch_chain wf_heap_with_global split: option.splits any.splits)

lemma frame_dispatch:
  "windowManager (dispatch a event now) = windowManager a"
  "delivered (dispatch a event now) = delivered a"
  "onWindowClosed (dispatch a event now) = onWindowClosed a"
  by (simp_all add: dispatch_chain frame_with_global split: option.splits any.splits)

lemma global_metric_dispatch:
  assumes "wf_heap a"
    and "n \<noteq> ''pageviews''" "n \<noteq> ''unique_pages''" "\<forall>page. n \<noteq> ''page_views:'' @ page"
    and "n \<noteq> ''clicks''" "\<forall>element. n \<noteq> ''clicks:'' @ element"
    and "n \<noteq> ''purchases''" "n \<noteq> ''revenue''" "n \<noteq> ''revenue_histogram''"
  shows "global_metric (dispatch a event now) n = global_metric a n"
  using assms
  by (simp add: dispatch_chain global_metric_with_global wf_heap_with_global touch_apply
        split: option.splits any.splits)

lemma wf_heap_updateGlobalMetrics: "wf_heap a \<Longrightarrow> wf_heap (updateGlobalMetrics a event now)"
  by (simp add: updateGlobalMetrics_chain wf_heap_dispatch wf_heap_with_global)

lemma frame_updateGlobalMetrics:
  "windowManager (updateGlobalMetrics a event now) = windowManager a"
  "delivered (updateGlobalMetrics a event now) = delivered a"
  "onWindowClosed (updateGlobalMetrics a event now) = onWindowClosed a"
  by (simp_all add: updateGlobalMetrics_chain frame_dispatch frame_with_global)

lemma global_metric_updateGlobalMetrics_total:
  assumes "wf_heap a"
  shows "global_metric (updateGlobalMetrics a event now) ''total_events'' =
     Some (Increment (case global_metric a ''total_events'' of
                        None \<Rightarrow> NewMetric ''total_events'' MetricTypeCounter now
                      | Some m \<Rightarrow> m) now)"
  using assms
  by (simp add: updateGlobalMetrics_chain global_metric_dispatch global_metric_with_global wf_heap_with_global
        touch_apply)

lemma global_metric_updateGlobalMetrics_by_type:
  assumes "wf_heap a"
  shows "global_metric (updateGlobalMetrics a event now) (''events_by_type:'' @ Event.Type event) =
     Some (Increment (case global_metric a (''events_by_type:'' @ Event.Type event) of
                        None \<Rightarrow> NewMetric (''events_by_type:'' @ Event.Type event) MetricTypeCounter now
                      | Some m \<Rightarrow> m) now)"
  using assms
  by (simp add: updateGlobalMetrics_chain global_metric_dispatch global_metric_with_global wf_heap_with_global
        touch_apply split: option.splits)

lemma global_metric_updateGlobalMetrics_other_type:
  assumes "wf_heap a" and "t \<noteq> Event.Type event"
  shows "global_metric (updateGlobalMetrics a event now) (''events_by_type:'' @ t)
           = global_metric a (''events_by_type:'' @ t)"
  using assms
  by (simp add: updateGlobalMetrics_chain global_metric_dispatch global_metric_with_global wf_heap_with_global
        touch_apply)

lemma global_metric_updateGlobalMetrics_users:
  assumes "wf_heap a"
  shows "global_metric (updateGlobalMetrics a event now) ''unique_users'' =
     Some ((if UserID event \<noteq> '''' then (\<lambda>m. AddUnique m (UserID event) now) else (\<lambda>m. m))
            (case global_metric a ''unique_users'' of
               None \<Rightarrow> NewMetric ''unique_users'' MetricTypeSet now
             | Some m \<Rightarrow> m))"
  using assms
  by (simp add: updateGlobalMetrics_chain global_metric_dispatch global_metric_with_global wf_heap_with_global
        touch_apply)

lemma global_metric_updateGlobalMetrics_sessions:
  assumes "wf_heap a"
  shows "global_metric (updateGlobalMetrics a event now) ''unique_sessions'' =
     Some ((if SessionID event \<noteq> '''' then (\<lambda>m. AddUnique m (SessionID event) now) else (\<lambda>m. m))
            (case global_metric a ''unique_sessions'' of
               None \<Rightarrow> NewMetric ''unique_sessions'' MetricTypeSet now
             | Some m \<Rightarrow> m))"
  using assms
  by (simp add: updateGlobalMetrics_chain global_metric_dispatch global_metric_with_global wf_heap_with_global
        touch_apply)

lemma GetOrCreateWindow_shape:
  "map window_shape (Windows (snd (GetOrCreateWindow wm t now))) =
     (if find_window (Windows wm) (Truncate t (duration wm)) = None
      then map window_shape (Windows wm)
             @ [(Truncate t (duration wm), Add (Truncate t (duration wm)) (duration wm),
                 duration wm, False)]
      else map window_shape (Windows wm))"
  "duration (snd (GetOrCreateWindow wm t now)) = duration wm"
  by (auto simp: GetOrCreateWindow_def Let_def NewTimeWindow_def window_shape_def
        split: option.splits)

lemma find_window_shape:
  "map window_shape ws = map window_shape ws' \<Longrightarrow> find_window ws s = find_window ws' s"
proof (induction ws arbitrary: ws')
  case Nil
  then show ?case by simp
next
  case (Cons w ws)
  then obtain w' ws'' where w': "ws' = w' # ws''" by (cases ws') auto
  with Cons.prems have h: "window_shape w = window_shape w'"
    and t: "map window_shape ws = map window_shape ws''" by simp_all
  from h have "StartTime w = StartTime w'" and "Closed w = Closed w'"
    by (simp_all add: window_shape_def)
  with Cons.IH [OF t] show ?case unfolding w' by simp
qed

lemma wf_heap_GetOrCreateWindow:
  assumes "wf_heap a" and "GetOrCreateWindow (windowManager a) t now = (i, wm)"
  shows "wf_heap (a\<lparr>windowManager := wm\<rparr>)"
    and "global_metric (a\<lparr>windowManager := wm\<rparr>) = global_metric a"
    and "i < length (Windows wm)"
proof -
  show "i < length (Windows wm)"
    using GetOrCreateWindow_result [OF assms(2)] by simp
  show "global_metric (a\<lparr>windowManager := wm\<rparr>) = global_metric a"
    by (simp add: global_metric_def)
  show "wf_heap (a\<lparr>windowManager := wm\<rparr>)"
    using assms
    by (auto simp: wf_heap_def GetOrCreateWindow_def Let_def NewTimeWindow_def
          NewMetricsSnapshot_def allocated_def split: option.splits)
qed

lemma updateWindowMetrics_effect:
  assumes "wf_heap a" and "i < length (Windows (windowManager a))"
  shows "wf_heap (updateWindowMetrics a i event now)"
    and "global_metric (updateWindowMetrics a i event now) = global_metric a"
    and "delivered (updateWindowMetrics a i event now) = delivered a"
    and "onWindowClosed (updateWindowMetrics a i event now) = onWindowClosed a"
    and "map window_shape (Windows (windowManager (updateWindowMetrics a i event now)))
           = map window_shape (Windows (windowManager a))"
    and "duration (windowManager (updateWindowMetrics a i event now)) = duration (windowManager a)"
proof -
  let ?a1 = "with_window i ''events'' MetricTypeCounter (\<lambda>m. Increment m now) now a"
  let ?a2 = "with_window i (''events:'' @ Event.Type event) MetricTypeCounter
               (\<lambda>m. Increment m now) now ?a1"
  have l: "\<And>x y. map window_shape x = map window_shape y \<Longrightarrow> length x = length y"
    by (rule map_eq_imp_length_eq)
  have w1: "wf_heap ?a1" and g1: "global_metric ?a1 = global_metric a"
    and i1: "i < length (Windows (windowManager ?a1))"
    using assms l [OF with_window_frame(4) [of i _ _ _ now a]]
    by (simp_all add: wf_heap_with_window global_metric_with_window)
  have w2: "wf_heap ?a2" and g2: "global_metric ?a2 = global_metric a"
    and i2: "i < length (Windows (windowManager ?a2))"
    using w1 g1 i1 l [OF with_window_frame(4) [of i _ _ _ now ?a1]]
    by (simp_all add: wf_heap_with_window global_metric_with_window)
  show "wf_heap (updateWindowMetrics a i event now)"
    and "global_metric (updateWindowMetrics a i event now) = global_metric a"
    using w2 g2 i2 unfolding updateWindowMetrics_chain
    by (simp_all add: wf_heap_with_window global_metric_with_window)
  show "delivered (updateWindowMetrics a i event now) = delivered a"
    and "onWindowClosed (updateWindowMetrics a i event now) = onWindowClosed a"
    and "map window_shape (Windows (windowManager (updateWindowMetrics a i event now)))
           = map window_shape (Windows (windowManager a))"
    and "duration (windowManager (updateWindowMetrics a i event now)) = duration (windowManager a)"
    unfolding updateWindowMetrics_chain by (simp_all add: with_window_frame)
qed

lemma ProcessEvent_effect:
  assumes "wf_heap a"
  shows "wf_heap (ProcessEvent a event now)"
    and "global_metric (ProcessEvent a event now) = global_metric (updateGlobalMetrics a event now)"
    and "delivered (ProcessEvent a event now) = delivered a"
    and "onWindowClosed (ProcessEvent a event now) = onWindowClosed a"
    and "map window_shape (Windows (windowManager (ProcessEvent a event now)))
           = map window_shape
               (Windows (snd (GetOrCreateWindow (windowManager a) (Event.Timestamp event) now)))"
    and "duration (windowManager (ProcessEvent a event now)) = duration (windowManager a)"
proof -
  let ?a1 = "updateGlobalMetrics a event now"
  obtain i wm where g: "GetOrCreateWindow (windowManager ?a1) (Event.Timestamp event) now = (i, wm)"
    by (cases "GetOrCreateWindow (windowManager ?a1) (Event.Timestamp event) now")
  let ?a2 = "?a1\<lparr>windowManager := wm\<rparr>"
  have e: "ProcessEvent a event now = updateWindowMetrics ?a2 i event now"
    using g by (simp add: ProcessEvent_def Let_def)
  have w1: "wf_heap ?a1" using assms by (rule wf_heap_updateGlobalMetrics)
  from wf_heap_GetOrCreateWindow [OF w1 g]
  have w2: "wf_heap ?a2" and g2: "global_metric ?a2 = global_metric ?a1"
    and i2: "i < length (Windows (windowManager ?a2))" by simp_all
  have wm: "wm = snd (GetOrCreateWindow (windowManager a) (Event.Timestamp event) now)"
    using g by (simp add: frame_updateGlobalMetrics)
  from updateWindowMetrics_effect [OF w2 i2, of event now] g2 wm
  show "wf_heap (ProcessEvent a event now)"
    and "global_metric (ProcessEvent a event now) = global_metric (updateGlobalMetrics a event now)"
    and "delivered (ProcessEvent a event now) = delivered a"
    and "onWindowClosed (ProcessEvent a event now) = onWindowClosed a"
    and "map window_shape (Windows (windowManager (ProcessEvent a event now)))
           = map window_shape
               (Windows (snd (GetOrCreateWindow (windowManager a) (Event.Timestamp event) now)))"
    and "duration (windowManager (ProcessEvent a event now)) = duration (windowManager a)"
    unfolding e by (simp_all add: frame_updateGlobalMetrics GetOrCreateWindow_shape(2))
qed

lemma wf_heap_NewAggregator: "wf_heap (NewAggregator wd fi now)"
  by (simp add: wf_heap_def NewAggregator_def NewMetricsSnapshot_def NewWindowManager_def
        allocated_def)

lemma wf_heap_ProcessEvents: "wf_heap a \<Longrightarrow> wf_heap (ProcessEvents a evs)"
  unfolding ProcessEvents_def
  by (induction evs arbitrary: a) (auto simp: ProcessEvent_effect(1))

lemma ProcessEvents_snoc:
  "ProcessEvents a (evs @ [(event, now)]) = ProcessEvent (ProcessEvents a evs) event now"
  by (simp add: ProcessEvents_def)

section \<open>Global counters\<close>

lemma global_metric_NewAggregator: "global_metric (NewAggregator wd fi now) = Map.empty"
  by (simp add: global_metric_def NewAggregator_def NewMetricsSnapshot_def)

lemma global_count_incremented:
  "global_metric a' k = Some (Increment (case global_metric a k of None \<Rightarrow> NewMetric k ty t | Some m \<Rightarrow> m) now)
   \<Longrightarrow> global_count a' k = global_count a k + 1"
  by (simp add: global_count_def Increment_def NewMetric_def split: option.splits)

lemma global_count_same:
  "global_metric a' k = global_metric a k \<Longrightarrow> global_count a' k = global_count a k"
  by (simp add: global_count_def)

lemma counts_ProcessEvents:
  "global_count (ProcessEvents (NewAggregator wd fi t0) evs) ''total_events''
     = word_of_nat (length evs)
   \<and> (\<forall>t. global_count (ProcessEvents (NewAggregator wd fi t0) evs) (''events_by_type:'' @ t)
          = word_of_nat (count_list (event_types evs) t))"
proof (induction evs rule: rev_induct)
  case Nil
  show ?case
    by (simp add: ProcessEvents_def global_count_def global_metric_NewAggregator event_types_def)
next
  case (snoc x evs)
  obtain event now where x: "x = (event, now)" by (cases x)
  let ?a = "ProcessEvents (NewAggregator wd fi t0) evs"
  let ?a' = "ProcessEvents (NewAggregator wd fi t0) (evs @ [x])"
  have w: "wf_heap ?a"
    by (rule wf_heap_ProcessEvents) (rule wf_heap_NewAggregator)
  have g: "global_metric ?a' = global_metric (updateGlobalMetrics ?a event now)"
    unfolding x ProcessEvents_snoc by (rule ProcessEvent_effect(2) [OF w])
  have "global_count ?a' ''total_events'' = global_count ?a ''total_events'' + 1"
    by (rule global_count_incremented) (simp only: g global_metric_updateGlobalMetrics_total [OF w])
  also have "\<dots> = word_of_nat (length evs) + 1"
    using snoc.IH by (simp only:)
  finally have total: "global_count ?a' ''total_events'' = word_of_nat (length (evs @ [x]))"
    by simp
  have by_type: "global_count ?a' (''events_by_type:'' @ t)
                 = word_of_nat (count_list (event_types (evs @ [x])) t)" for t
  proof (cases "t = Event.Type event")
    case True
    have ih: "global_count ?a (''events_by_type:'' @ Event.Type event)
          = word_of_nat (count_list (event_types evs) (Event.Type event))"
      using snoc.IH by blast
    have "global_count ?a' (''events_by_type:'' @ Event.Type event)
            = global_count ?a (''events_by_type:'' @ Event.Type event) + 1"
      by (rule global_count_incremented)
         (simp only: g global_metric_updateGlobalMetrics_by_type [OF w])
    also have "\<dots> = word_of_nat (count_list (event_types evs) (Event.Type event)) + 1"
      by (simp only: ih)
    also have "\<dots> = word_of_nat (count_list (event_types (evs @ [x])) (Event.Type event))"
      by (simp add: event_types_def x)
    finally show ?thesis unfolding True .
  next
    case False
    have ih: "global_count ?a (''events_by_type:'' @ t)
          = word_of_nat (count_list (event_types evs) t)"
      using snoc.IH by blast
    have "global_count ?a' (''events_by_type:'' @ t) = global_count ?a (''events_by_type:'' @ t)"
      by (rule global_count_same)
         (simp only: g global_metric_updateGlobalMetrics_other_type [OF w False])
    also have "\<dots> = word_of_nat (count_list (event_types evs) t)"
      by (simp only: ih)
    also have "\<dots> = word_of_nat (count_list (event_types (evs @ [x])) t)"
      using False by (simp add: event_types_def x)
    finally show ?thesis .
  qed
  from total by_type show ?case by blast
qed

lemma sum_count_list: "(\<Sum>t \<in> set ts. count_list ts t) = length ts"
  by (rule sum_count_set) simp_all

text \<open>
  C5. After any sequence of \<^verbatim>\<open>ProcessEvent\<close> calls on a new aggregator, the count of
  \<^verbatim>\<open>total_events\<close> is the sum, over the event types that occurred, of the counts of
  \<^verbatim>\<open>events_by_type:<t>\<close>: as \<^verbatim>\<open>int64\<close> values, and as integers for fewer than
  \<open>2 ^ 63\<close> events.
\<close>

theorem C5_total_is_sum_by_type:
  "global_count (ProcessEvents (NewAggregator wd fi t0) evs) ''total_events''
     = (\<Sum>t \<in> set (event_types evs).
          global_count (ProcessEvents (NewAggregator wd fi t0) evs) (''events_by_type:'' @ t))
   \<and> (length evs < 2 ^ 63 \<longrightarrow>
        sint (global_count (ProcessEvents (NewAggregator wd fi t0) evs) ''total_events'')
          = (\<Sum>t \<in> set (event_types evs).
               sint (global_count (ProcessEvents (NewAggregator wd fi t0) evs)
                       (''events_by_type:'' @ t))))"
proof -
  let ?a = "ProcessEvents (NewAggregator wd fi t0) evs"
  let ?ts = "event_types evs"
  have len: "length ?ts = length evs" by (simp add: event_types_def)
  from counts_ProcessEvents [of wd fi t0 evs]
  have total: "global_count ?a ''total_events'' = word_of_nat (length evs)"
    and by_type: "\<And>t. global_count ?a (''events_by_type:'' @ t)
                    = word_of_nat (count_list ?ts t)" by blast+
  have "(\<Sum>t \<in> set ?ts. global_count ?a (''events_by_type:'' @ t))
          = (\<Sum>t \<in> set ?ts. word_of_nat (count_list ?ts t))"
    by (simp only: by_type)
  also have "\<dots> = word_of_nat (\<Sum>t \<in> set ?ts. count_list ?ts t)" by simp
  also have "\<dots> = word_of_nat (length evs)" by (simp add: sum_count_list len)
  finally have w: "global_count ?a ''total_events''
     = (\<Sum>t \<in> set ?ts. global_count ?a (''events_by_type:'' @ t))"
    using total by simp
  have i: "length evs < 2 ^ 63 \<longrightarrow>
        sint (global_count ?a ''total_events'')
          = (\<Sum>t \<in> set ?ts. sint (global_count ?a (''events_by_type:'' @ t)))"
  proof
    assume b: "length evs < 2 ^ 63"
    have le: "count_list ?ts t \<le> length evs" for t
      using count_le_length [of ?ts t] len by simp
    have "(\<Sum>t \<in> set ?ts. sint (global_count ?a (''events_by_type:'' @ t)))
            = (\<Sum>t \<in> set ?ts. int (count_list ?ts t))"
    proof (rule sum.cong)
      fix t
      have "count_list ?ts t < 2 ^ 63" using le [of t] b by simp
      then show "sint (global_count ?a (''events_by_type:'' @ t)) = int (count_list ?ts t)"
        by (simp only: by_type sint_word_of_nat_64)
    qed simp
    also have "\<dots> = int (\<Sum>t \<in> set ?ts. count_list ?ts t)" by simp
    also have "\<dots> = int (length evs)" by (simp add: sum_count_list len)
    finally show "sint (global_count ?a ''total_events'')
          = (\<Sum>t \<in> set ?ts. sint (global_count ?a (''events_by_type:'' @ t)))"
      using total sint_word_of_nat_64 [OF b] by simp
  qed
  from w i show ?thesis by blast
qed

text \<open>
  Scenario E4: four events of three types, 4 = 2 + 1 + 1.
\<close>

theorem C5_total_is_sum_by_type_witness:
  "length mixed_events < 2 ^ 63
   \<and> event_types mixed_events = [''pageview'', ''pageview'', ''click'', ''purchase'']
   \<and> sint (global_count (ProcessEvents (NewAggregator Minute (5 * Second) 0) mixed_events)
              ''total_events'')
       = (\<Sum>t \<in> {''pageview'', ''click'', ''purchase''}.
            sint (global_count (ProcessEvents (NewAggregator Minute (5 * Second) 0) mixed_events)
                    (''events_by_type:'' @ t)))
   \<and> global_count (ProcessEvents (NewAggregator Minute (5 * Second) 0) mixed_events)
              ''total_events'' = 4"
proof -
  have l: "length mixed_events < 2 ^ 63" by (simp add: mixed_events_def)
  have t: "event_types mixed_events = [''pageview'', ''pageview'', ''click'', ''purchase'']"
    by (simp add: mixed_events_def event_types_def)
  have s: "set (event_types mixed_events) = {''pageview'', ''click'', ''purchase''}"
    unfolding t by auto
  have n: "global_count (ProcessEvents (NewAggregator Minute (5 * Second) 0) mixed_events)
              ''total_events'' = 4"
    using counts_ProcessEvents [of Minute "5 * Second" 0 mixed_events]
    by (simp add: mixed_events_def)
  from C5_total_is_sum_by_type [of Minute "5 * Second" 0 mixed_events] l
  have "sint (global_count (ProcessEvents (NewAggregator Minute (5 * Second) 0) mixed_events)
              ''total_events'')
       = (\<Sum>t \<in> set (event_types mixed_events).
            sint (global_count (ProcessEvents (NewAggregator Minute (5 * Second) 0) mixed_events)
                    (''events_by_type:'' @ t)))" by blast
  then show ?thesis unfolding s using l t n by blast
qed

section \<open>Unique users and sessions in the stats\<close>

lemma user_ids_snoc:
  "user_ids (evs @ [(event, now)])
     = (if UserID event \<noteq> '''' then user_ids evs @ [UserID event] else user_ids evs)"
  "session_ids (evs @ [(event, now)])
     = (if SessionID event \<noteq> '''' then session_ids evs @ [SessionID event] else session_ids evs)"
  by (simp_all add: user_ids_def session_ids_def)

lemma is_unique_set_NewMetric: "is_unique_set [] (NewMetric name ty now)"
  by (simp add: is_unique_set_def NewMetric_def fcard_fempty)

lemma is_unique_set_AddUnique:
  "is_unique_set ids m \<Longrightarrow> is_unique_set (ids @ [v]) (AddUnique m v now)"
  by (auto simp: is_unique_set_def AddUnique_def Let_def)

lemma is_unique_set_step:
  assumes "case v of None \<Rightarrow> evs = [] | Some m \<Rightarrow> evs \<noteq> [] \<and> is_unique_set ids m"
    and "evs = [] \<Longrightarrow> ids = []"
    and "v' = Some ((if u \<noteq> '''' then (\<lambda>m. AddUnique m u now) else (\<lambda>m. m))
                     (case v of None \<Rightarrow> NewMetric k ty now | Some m \<Rightarrow> m))"
  shows "case v' of None \<Rightarrow> evs @ [x] = []
         | Some m \<Rightarrow> evs @ [x] \<noteq> [] \<and> is_unique_set (if u \<noteq> '''' then ids @ [u] else ids) m"
proof (cases v)
  case None
  with assms(1,2) have "ids = []" by simp
  then show ?thesis unfolding assms(3) None
    using is_unique_set_NewMetric [of k ty now]
      is_unique_set_AddUnique [of "[]" "NewMetric k ty now" u now] by simp
next
  case (Some m)
  with assms(1) have "is_unique_set ids m" by simp
  then show ?thesis unfolding assms(3) Some
    using is_unique_set_AddUnique [of ids m u now] by simp
qed

lemma unique_ProcessEvents:
  "(case global_metric (ProcessEvents (NewAggregator wd fi t0) evs) ''unique_users'' of
      None \<Rightarrow> evs = [] | Some m \<Rightarrow> evs \<noteq> [] \<and> is_unique_set (user_ids evs) m)
   \<and> (case global_metric (ProcessEvents (NewAggregator wd fi t0) evs) ''unique_sessions'' of
      None \<Rightarrow> evs = [] | Some m \<Rightarrow> evs \<noteq> [] \<and> is_unique_set (session_ids evs) m)"
proof (induction evs rule: rev_induct)
  case Nil
  show ?case by (simp add: ProcessEvents_def global_metric_NewAggregator)
next
  case (snoc x evs)
  obtain event now where x: "x = (event, now)" by (cases x)
  let ?a = "ProcessEvents (NewAggregator wd fi t0) evs"
  let ?a' = "ProcessEvents (NewAggregator wd fi t0) (evs @ [x])"
  have w: "wf_heap ?a"
    by (rule wf_heap_ProcessEvents) (rule wf_heap_NewAggregator)
  have g: "global_metric ?a' = global_metric (updateGlobalMetrics ?a event now)"
    unfolding x ProcessEvents_snoc by (rule ProcessEvent_effect(2) [OF w])
  have e: "evs = [] \<Longrightarrow> user_ids evs = []" "evs = [] \<Longrightarrow> session_ids evs = []"
    by (simp_all add: user_ids_def session_ids_def)
  from snoc.IH
  have iu: "case global_metric ?a ''unique_users'' of
      None \<Rightarrow> evs = [] | Some m \<Rightarrow> evs \<noteq> [] \<and> is_unique_set (user_ids evs) m"
    and isess: "case global_metric ?a ''unique_sessions'' of
      None \<Rightarrow> evs = [] | Some m \<Rightarrow> evs \<noteq> [] \<and> is_unique_set (session_ids evs) m"
    by blast+
  have gu: "global_metric ?a' ''unique_users'' =
     Some ((if UserID event \<noteq> '''' then (\<lambda>m. AddUnique m (UserID event) now) else (\<lambda>m. m))
            (case global_metric ?a ''unique_users'' of
               None \<Rightarrow> NewMetric ''unique_users'' MetricTypeSet now
             | Some m \<Rightarrow> m))"
    by (simp only: g global_metric_updateGlobalMetrics_users [OF w])
  have gs: "global_metric ?a' ''unique_sessions'' =
     Some ((if SessionID event \<noteq> '''' then (\<lambda>m. AddUnique m (SessionID event) now) else (\<lambda>m. m))
            (case global_metric ?a ''unique_sessions'' of
               None \<Rightarrow> NewMetric ''unique_sessions'' MetricTypeSet now
             | Some m \<Rightarrow> m))"
    by (simp only: g global_metric_updateGlobalMetrics_sessions [OF w])
  from is_unique_set_step [OF iu e(1) gu, of x] is_unique_set_step [OF isess e(2) gs, of x]
  show ?case unfolding x user_ids_snoc by blast
qed

lemma GetMetricValue_global_metric:
  "fst (GetMetricValue (globalMetrics a) name (heap a))
     = (case global_metric a name of None \<Rightarrow> 0 | Some m \<Rightarrow> Value m)"
  by (simp add: GetMetricValue_def global_metric_def split: option.splits)

lemma GetStats_unique:
  "GetStats a now ''unique_users''
     = Some (any_float64 (case global_metric a ''unique_users'' of None \<Rightarrow> 0 | Some m \<Rightarrow> Value m))"
  "GetStats a now ''unique_sessions''
     = Some (any_float64 (case global_metric a ''unique_sessions'' of None \<Rightarrow> 0 | Some m \<Rightarrow> Value m))"
  by (simp_all add: GetStats_def Let_def GetMetricValue_global_metric)

text \<open>
  C4. After any sequence of \<^verbatim>\<open>ProcessEvent\<close> calls on a new aggregator, the entries
  \<^verbatim>\<open>unique_users\<close> and \<^verbatim>\<open>unique_sessions\<close> of \<^verbatim>\<open>GetStats\<close> are the
  \<^verbatim>\<open>Value\<close> fields of the two unique-set metrics; \<^verbatim>\<open>AddUnique\<close> leaves
  \<^verbatim>\<open>Value\<close> as it is, so both entries are 0, while the \<^verbatim>\<open>Count\<close> of each metric is
  the number of distinct non-empty ids processed.
\<close>

theorem C4_unique_stats_are_zero:
  "GetStats (ProcessEvents (NewAggregator wd fi t0) evs) now ''unique_users''
     = Some (any_float64 (case global_metric (ProcessEvents (NewAggregator wd fi t0) evs) ''unique_users'' of
                            None \<Rightarrow> 0 | Some m \<Rightarrow> Value m))
   \<and> GetStats (ProcessEvents (NewAggregator wd fi t0) evs) now ''unique_sessions''
     = Some (any_float64 (case global_metric (ProcessEvents (NewAggregator wd fi t0) evs) ''unique_sessions'' of
                            None \<Rightarrow> 0 | Some m \<Rightarrow> Value m))
   \<and> Value (AddUnique m v t) = Value m
   \<and> GetStats (ProcessEvents (NewAggregator wd fi t0) evs) now ''unique_users'' = Some (any_float64 0)
   \<and> GetStats (ProcessEvents (NewAggregator wd fi t0) evs) now ''unique_sessions'' = Some (any_float64 0)
   \<and> (evs \<noteq> [] \<longrightarrow>
        map_option Count (global_metric (ProcessEvents (NewAggregator wd fi t0) evs) ''unique_users'')
          = Some (word_of_nat (length (remdups (user_ids evs))))
        \<and> map_option Count (global_metric (ProcessEvents (NewAggregator wd fi t0) evs) ''unique_sessions'')
          = Some (word_of_nat (length (remdups (session_ids evs)))))"
proof -
  let ?a = "ProcessEvents (NewAggregator wd fi t0) evs"
  from unique_ProcessEvents [of evs wd fi t0]
  have u: "case global_metric ?a ''unique_users'' of
      None \<Rightarrow> evs = [] | Some m \<Rightarrow> evs \<noteq> [] \<and> is_unique_set (user_ids evs) m"
    and s: "case global_metric ?a ''unique_sessions'' of
      None \<Rightarrow> evs = [] | Some m \<Rightarrow> evs \<noteq> [] \<and> is_unique_set (session_ids evs) m"
    by blast+
  have zu: "(case global_metric ?a ''unique_users'' of None \<Rightarrow> 0 | Some m \<Rightarrow> Value m) = 0"
    using u by (simp add: is_unique_set_def split: option.splits)
  have zs: "(case global_metric ?a ''unique_sessions'' of None \<Rightarrow> 0 | Some m \<Rightarrow> Value m) = 0"
    using s by (simp add: is_unique_set_def split: option.splits)
  have cu: "evs \<noteq> [] \<longrightarrow> map_option Count (global_metric ?a ''unique_users'')
          = Some (word_of_nat (length (remdups (user_ids evs))))"
    using u by (auto simp: is_unique_set_def fcard_fset_of_list split: option.splits)
  have cs: "evs \<noteq> [] \<longrightarrow> map_option Count (global_metric ?a ''unique_sessions'')
          = Some (word_of_nat (length (remdups (session_ids evs))))"
    using s by (auto simp: is_unique_set_def fcard_fset_of_list split: option.splits)
  have v: "Value (AddUnique m v t) = Value m"
    by (simp add: AddUnique_def Let_def)
  show ?thesis
    unfolding GetStats_unique zu zs using cu cs v by blast
qed

text \<open>
  Scenario E4: two users and two sessions, and both entries of the stats are 0.
\<close>

theorem C4_unique_stats_are_zero_witness:
  "mixed_events \<noteq> []
   \<and> user_ids mixed_events = [''user_1'', ''user_2'', ''user_1'', ''user_2'']
   \<and> session_ids mixed_events = [''sess_1'', ''sess_2'', ''sess_1'']
   \<and> GetStats (ProcessEvents (NewAggregator Minute (5 * Second) 0) mixed_events) (20 * Second)
        ''unique_users'' = Some (any_float64 0)
   \<and> GetStats (ProcessEvents (NewAggregator Minute (5 * Second) 0) mixed_events) (20 * Second)
        ''unique_sessions'' = Some (any_float64 0)
   \<and> map_option Count
        (global_metric (ProcessEvents (NewAggregator Minute (5 * Second) 0) mixed_events) ''unique_users'')
       = Some 2
   \<and> map_option Count
        (global_metric (ProcessEvents (NewAggregator Minute (5 * Second) 0) mixed_events) ''unique_sessions'')
       = Some 2"
proof -
  have n: "mixed_events \<noteq> []" by (simp add: mixed_events_def)
  have u: "user_ids mixed_events = [''user_1'', ''user_2'', ''user_1'', ''user_2'']"
    by (simp add: mixed_events_def user_ids_def)
  have s: "session_ids mixed_events = [''sess_1'', ''sess_2'', ''sess_1'']"
    by (simp add: mixed_events_def session_ids_def)
  have ru: "length (remdups (user_ids mixed_events)) = 2" unfolding u by simp
  have rs: "length (remdups (session_ids mixed_events)) = 2" unfolding s by simp
  from C4_unique_stats_are_zero [of Minute "5 * Second" 0 mixed_events "20 * Second"
      "NewMetric ''unique_users'' MetricTypeSet 0" "''user_1''" 0] n
  have "GetStats (ProcessEvents (NewAggregator Minute (5 * Second) 0) mixed_events) (20 * Second)
        ''unique_users'' = Some (any_float64 0)"
    and "GetStats (ProcessEvents (NewAggregator Minute (5 * Second) 0) mixed_events) (20 * Second)
        ''unique_sessions'' = Some (any_float64 0)"
    and "map_option Count
        (global_metric (ProcessEvents (NewAggregator Minute (5 * Second) 0) mixed_events) ''unique_users'')
       = Some (word_of_nat (length (remdups (user_ids mixed_events))))"
    and "map_option Count
        (global_metric (ProcessEvents (NewAggregator Minute (5 * Second) 0) mixed_events) ''unique_sessions'')
       = Some (word_of_nat (length (remdups (session_ids mixed_events))))"
    by blast+
  then show ?thesis unfolding ru rs using n u s by simp
qed

section \<open>The flush loop\<close>

lemma flush_loop_panics:
  "onWindowClosed a = Some callback \<Longrightarrow> \<forall>x \<in> set ws1. callback x = returns \<Longrightarrow>
   callback w = panics \<Longrightarrow>
   flush_loop (ws1 @ w # ws2) a = Panicked (a\<lparr>delivered := delivered a @ ws1 @ [w]\<rparr>)"
  by (induction ws1 arbitrary: a) (simp_all add: Let_def)

lemma flush_loop_returns:
  "onWindowClosed a = Some callback \<Longrightarrow> \<forall>x \<in> set ws. callback x = returns \<Longrightarrow>
   flush_loop ws a = Returned (a\<lparr>delivered := delivered a @ ws\<rparr>)"
  by (induction ws arbitrary: a) (simp_all add: Let_def)

lemma flush_loop_no_callback:
  "onWindowClosed a = None \<Longrightarrow> flush_loop ws a = Returned a"
  by (induction ws arbitrary: a) simp_all

lemma Start_ticks: "Start a (map ticker_C ts @ ctx_Done # rest) = Some (ticks a ts)"
  by (induction ts arbitrary: a) (simp_all split: outcome.splits)

text \<open>
  C1, as amended. When the select takes the cancellation case, \<^verbatim>\<open>Start\<close> returns at
  once with the state as it is: after any ticks, the state it returns with is the state
  those ticks left, with no further \<^verbatim>\<open>CloseExpiredWindows\<close> and no further call of the
  callback.
\<close>

theorem C1_returns_without_final_sweep:
  "Start a (ctx_Done # rest) = Some (Returned a)
   \<and> Start a (map ticker_C ts @ ctx_Done # rest) = Some (ticks a ts)"
  by (simp add: Start_ticks)

text \<open>
  C2, as amended. If the callback panics on a window closed in a tick, after returning on
  the windows before it, the panic is not recovered: \<^verbatim>\<open>flushExpiredWindows\<close> and
  \<^verbatim>\<open>Start\<close> end with that panic, all expired windows closed, and the callback called on
  the windows up to the panicking one only; the rest of the select cases is never read, so
  no later tick runs.
\<close>

theorem C2_callback_panic_ends_loop:
  assumes "onWindowClosed a = Some callback"
    and "CloseExpiredWindows (windowManager a) now = (ws1 @ w # ws2, wm)"
    and "\<forall>x \<in> set ws1. callback x = returns"
    and "callback w = panics"
  shows "flushExpiredWindows a now
           = Panicked (a\<lparr>windowManager := wm, delivered := delivered a @ ws1 @ [w]\<rparr>)
         \<and> Start a (ticker_C now # rest)
           = Some (Panicked (a\<lparr>windowManager := wm, delivered := delivered a @ ws1 @ [w]\<rparr>))"
proof -
  have "flush_loop (ws1 @ w # ws2) (a\<lparr>windowManager := wm\<rparr>)
          = Panicked (a\<lparr>windowManager := wm, delivered := delivered a @ ws1 @ [w]\<rparr>)"
    using flush_loop_panics [of "a\<lparr>windowManager := wm\<rparr>" callback ws1 w ws2] assms(1,3,4)
    by simp
  then have "flushExpiredWindows a now
           = Panicked (a\<lparr>windowManager := wm, delivered := delivered a @ ws1 @ [w]\<rparr>)"
    using assms(2) by (simp add: flushExpiredWindows_def)
  then show ?thesis by simp
qed

lemma closed_shape:
  "map window_shape (fst (CloseExpiredWindows wm t))
     = map (\<lambda>(s, e, d, c). (s, e, d, True))
         (filter (\<lambda>(s, e, d, c). \<not> c \<and> e < t) (map window_shape (Windows wm)))"
  unfolding CloseExpiredWindows_eq fst_conv
  by (induction "Windows wm" arbitrary: wm)
     (auto simp: window_shape_def ShouldClose_def After_def Close_def filter_map comp_def)

lemma in_flight_state:
  "map window_shape (Windows (windowManager (in_flight callback)))
     = [(0, 60 * Second, 60 * Second, False), (60 * Second, 120 * Second, 60 * Second, False)]"
  "delivered (in_flight callback) = []"
  "onWindowClosed (in_flight callback) = Some callback"
proof -
  let ?a0 = "NewAggregator Minute (5 * Second) 0"
  let ?e1 = "fst (two_windows ! 0)"
  let ?e2 = "fst (two_windows ! 1)"
  let ?a1 = "ProcessEvent ?a0 ?e1 (30 * Second)"
  let ?a2 = "ProcessEvent ?a1 ?e2 (90 * Second)"
  have p: "ProcessEvents ?a0 two_windows = ?a2"
    by (simp add: ProcessEvents_def two_windows_def)
  have t1: "Event.Timestamp ?e1 = 30 * Second" and t2: "Event.Timestamp ?e2 = 90 * Second"
    by (simp_all add: two_windows_def)
  have w0: "wf_heap ?a0" by (rule wf_heap_NewAggregator)
  have w1: "wf_heap ?a1" using w0 by (rule ProcessEvent_effect(1))
  have m0: "windowManager ?a0 = NewWindowManager Minute" by (simp add: NewAggregator_def)
  have s1: "map window_shape (Windows (windowManager ?a1)) = [(0, 60 * Second, 60 * Second, False)]"
    unfolding ProcessEvent_effect(5) [OF w0] t1 m0 GetOrCreateWindow_shape(1)
    by (simp add: NewWindowManager_def Truncate_def Add_def Minute_def Second_def)
  have d1: "duration (windowManager ?a1) = Minute"
    unfolding ProcessEvent_effect(6) [OF w0] m0 by (simp add: NewWindowManager_def)
  have "map window_shape (Windows (windowManager ?a1)) = map window_shape [NewTimeWindow 0 Minute 0]"
    unfolding s1 by (simp add: window_shape_def NewTimeWindow_def Add_def Minute_def Second_def)
  then have "find_window (Windows (windowManager ?a1)) (60 * Second)
               = find_window [NewTimeWindow 0 Minute 0] (60 * Second)"
    by (rule find_window_shape)
  then have f: "find_window (Windows (windowManager ?a1)) (60 * Second) = None"
    by (simp add: NewTimeWindow_def Equal_def Second_def)
  have tr: "Truncate (90 * Second) Minute = 60 * Second"
    by (simp add: Truncate_def Minute_def Second_def)
  have s2: "map window_shape (Windows (windowManager ?a2))
     = [(0, 60 * Second, 60 * Second, False), (60 * Second, 120 * Second, 60 * Second, False)]"
    unfolding ProcessEvent_effect(5) [OF w1] t2 GetOrCreateWindow_shape(1) d1 tr
    using f s1 by (simp add: Add_def Minute_def Second_def)
  show "map window_shape (Windows (windowManager (in_flight callback)))
     = [(0, 60 * Second, 60 * Second, False), (60 * Second, 120 * Second, 60 * Second, False)]"
    using s2 by (simp add: in_flight_def SetWindowClosedCallback_def p)
  have "delivered (ProcessEvents ?a0 two_windows) = delivered ?a0"
    unfolding p by (simp only: ProcessEvent_effect(3) [OF w1] ProcessEvent_effect(3) [OF w0])
  then have "delivered (ProcessEvents ?a0 two_windows) = []"
    by (simp add: NewAggregator_def)
  then show "delivered (in_flight callback) = []"
    by (simp add: in_flight_def SetWindowClosedCallback_def)
  show "onWindowClosed (in_flight callback) = Some callback"
    by (simp add: in_flight_def SetWindowClosedCallback_def)
qed

lemma in_flight_windows:
  "map StartTime (Windows (windowManager (in_flight callback))) = [0, 60 * Second]"
  "map Closed (Windows (windowManager (in_flight callback))) = [False, False]"
proof -
  have "map StartTime (Windows (windowManager (in_flight callback)))
          = map fst (map window_shape (Windows (windowManager (in_flight callback))))"
    by (simp add: window_shape_def comp_def)
  then show "map StartTime (Windows (windowManager (in_flight callback))) = [0, 60 * Second]"
    unfolding in_flight_state by simp
  have "map Closed (Windows (windowManager (in_flight callback)))
          = map (\<lambda>(s, e, d, c). c) (map window_shape (Windows (windowManager (in_flight callback))))"
    by (simp add: window_shape_def comp_def)
  then show "map Closed (Windows (windowManager (in_flight callback))) = [False, False]"
    unfolding in_flight_state by simp
qed

lemma in_flight_expired:
  "map StartTime (fst (CloseExpiredWindows (windowManager (in_flight callback)) (200 * Second)))
     = [0, 60 * Second]"
proof -
  have "map StartTime (fst (CloseExpiredWindows (windowManager (in_flight callback)) (200 * Second)))
          = map fst (map window_shape
              (fst (CloseExpiredWindows (windowManager (in_flight callback)) (200 * Second))))"
    by (simp add: window_shape_def comp_def)
  then show ?thesis
    unfolding closed_shape in_flight_state by (simp add: Second_def)
qed

text \<open>
  C1 as stated fails: two windows are open and have expired by 200 s; \<^verbatim>\<open>Start\<close>
  cancelled then returns with both still open and the callback never called, although a
  sweep at 200 s would have collected both.
\<close>

theorem C1_counterexample:
  "Start (in_flight always_returns) [ctx_Done] = Some (Returned (in_flight always_returns))
   \<and> delivered (in_flight always_returns) = []
   \<and> map Closed (Windows (windowManager (in_flight always_returns))) = [False, False]
   \<and> map StartTime
        (fst (CloseExpiredWindows (windowManager (in_flight always_returns)) (200 * Second)))
       = [0, 60 * Second]"
  by (simp add: in_flight_state(2) in_flight_windows(2) in_flight_expired)

lemma in_flight_flush:
  "flushExpiredWindows (in_flight always_panics) (200 * Second)
     = Panicked ((in_flight always_panics)
         \<lparr>windowManager :=
            snd (CloseExpiredWindows (windowManager (in_flight always_panics)) (200 * Second)),
          delivered :=
            [hd (fst (CloseExpiredWindows (windowManager (in_flight always_panics))
                        (200 * Second)))]\<rparr>)"
proof -
  let ?a = "in_flight always_panics"
  let ?c = "CloseExpiredWindows (windowManager ?a) (200 * Second)"
  from in_flight_expired [of always_panics]
  obtain w0 w1 where c: "fst ?c = [w0, w1]"
    by (cases "fst ?c"; cases "tl (fst ?c)"; cases "tl (tl (fst ?c))") auto
  have "flush_loop ([] @ w0 # [w1]) (?a\<lparr>windowManager := snd ?c\<rparr>)
          = Panicked (?a\<lparr>windowManager := snd ?c,
                          delivered := delivered (?a\<lparr>windowManager := snd ?c\<rparr>) @ [] @ [w0]\<rparr>)"
    using flush_loop_panics [of "?a\<lparr>windowManager := snd ?c\<rparr>" always_panics "[]" w0 "[w1]"]
    by (simp add: in_flight_state(3) always_panics_def)
  then show ?thesis
    using c by (simp add: flushExpiredWindows_def case_prod_unfold Let_def in_flight_state(2))
qed

text \<open>
  C2 as stated fails: with a callback that panics, the tick at 200 s closes two windows,
  \<^verbatim>\<open>Start\<close> ends in the panic after the call for the first, and the tick at 205 s never
  runs.
\<close>

theorem C2_counterexample:
  "map_option panicked
     (Start (in_flight always_panics) [ticker_C (200 * Second), ticker_C (205 * Second), ctx_Done])
     = Some True
   \<and> map_option (map StartTime \<circ> delivered \<circ> state_of)
     (Start (in_flight always_panics) [ticker_C (200 * Second), ticker_C (205 * Second), ctx_Done])
     = Some [0]
   \<and> map StartTime
        (fst (CloseExpiredWindows (windowManager (in_flight always_panics)) (200 * Second)))
       = [0, 60 * Second]"
proof -
  let ?c = "CloseExpiredWindows (windowManager (in_flight always_panics)) (200 * Second)"
  have "map StartTime (fst ?c) = [0, 60 * Second]" by (rule in_flight_expired)
  moreover from this have "StartTime (hd (fst ?c)) = 0" by (cases "fst ?c") auto
  ultimately show ?thesis by (simp add: in_flight_flush)
qed

text \<open>
  A callback that returns on the first of the two closed windows and panics on the second.
\<close>

theorem C2_callback_panic_ends_loop_witness:
  "onWindowClosed (in_flight (panics_from (60 * Second))) = Some (panics_from (60 * Second))
   \<and> map StartTime
        (fst (CloseExpiredWindows (windowManager (in_flight (panics_from (60 * Second))))
                (200 * Second)))
       = [0, 60 * Second]
   \<and> panics_from (60 * Second)
        (fst (CloseExpiredWindows (windowManager (in_flight (panics_from (60 * Second))))
                (200 * Second)) ! 0)
       = returns
   \<and> panics_from (60 * Second)
        (fst (CloseExpiredWindows (windowManager (in_flight (panics_from (60 * Second))))
                (200 * Second)) ! 1)
       = panics
   \<and> Start (in_flight (panics_from (60 * Second)))
         [ticker_C (200 * Second), ticker_C (205 * Second), ctx_Done]
       = Some (Panicked ((in_flight (panics_from (60 * Second)))
           \<lparr>windowManager :=
              snd (CloseExpiredWindows (windowManager (in_flight (panics_from (60 * Second))))
                     (200 * Second)),
            delivered :=
              fst (CloseExpiredWindows (windowManager (in_flight (panics_from (60 * Second))))
                     (200 * Second))\<rparr>))"
proof -
  let ?cb = "panics_from (60 * Second)"
  let ?a = "in_flight ?cb"
  let ?c = "CloseExpiredWindows (windowManager ?a) (200 * Second)"
  have o: "onWindowClosed ?a = Some ?cb" by (rule in_flight_state(3))
  have e: "map StartTime (fst ?c) = [0, 60 * Second]" by (rule in_flight_expired)
  then obtain w0 w1 where l: "fst ?c = [w0, w1]"
    by (cases "fst ?c"; cases "tl (fst ?c)"; cases "tl (tl (fst ?c))") auto
  from e l have s: "StartTime w0 = 0" "StartTime w1 = 60 * Second" by simp_all
  have c: "?c = ([w0] @ w1 # [], snd ?c)" using l by (simp add: prod_eq_iff)
  have r: "\<forall>x \<in> set [w0]. ?cb x = returns" using s by (simp add: panics_from_def Second_def)
  have p: "?cb w1 = panics" using s by (simp add: panics_from_def)
  from C2_callback_panic_ends_loop [OF o c r p, of "[ticker_C (205 * Second), ctx_Done]"]
  show ?thesis using o e l r p by (simp add: in_flight_state(2))
qed

section \<open>Batch ingestion\<close>

lemma Type_defaulted: "Event.Type (defaulted e i now nano) = Event.Type e"
  by (simp add: defaulted_def Let_def)

lemma queue_all_effect:
  "queue_all events i now nano q accepted rejected = (q', accepted', rejected') \<Longrightarrow>
     accepted' + rejected' = accepted + rejected + int (length events)
     \<and> capacity q' = capacity q
     \<and> take (length (buffer q)) (buffer q') = buffer q
     \<and> int (length (buffer q')) = int (length (buffer q)) + (accepted' - accepted)
     \<and> (\<forall>e \<in> set (drop (length (buffer q)) (buffer q')). Event.Type e \<noteq> '''')
     \<and> rejected + int (length (filter (\<lambda>e. Event.Type e = '''') events)) \<le> rejected'"
proof (induction events arbitrary: i q accepted rejected)
  case Nil
  then show ?case by simp
next
  case (Cons e rest)
  let ?event = "defaulted e i now nano"
  show ?case
  proof (cases "Event.Type e = ''''")
    case True
    with Cons.prems have "queue_all rest (Suc i) now nano q accepted (rejected + 1)
                            = (q', accepted', rejected')"
      by (simp add: Let_def Type_defaulted)
    from Cons.IH [OF this] True show ?thesis by simp
  next
    case False
    show ?thesis
    proof (cases "try_send q ?event")
      case None
      with Cons.prems False
      have "queue_all rest (Suc i) now nano q accepted (rejected + 1) = (q', accepted', rejected')"
        by (simp add: Let_def Type_defaulted)
      from Cons.IH [OF this] False show ?thesis by simp
    next
      case (Some q1)
      then have q1: "q1 = q\<lparr>buffer := buffer q @ [?event]\<rparr>"
        by (simp add: try_send_def split: if_splits)
      from Some Cons.prems False
      have "queue_all rest (Suc i) now nano q1 (accepted + 1) rejected = (q', accepted', rejected')"
        by (simp add: Let_def Type_defaulted)
      from Cons.IH [OF this] have ih:
        "accepted' + rejected' = accepted + 1 + rejected + int (length rest)"
        "capacity q' = capacity q1"
        "take (length (buffer q1)) (buffer q') = buffer q1"
        "int (length (buffer q')) = int (length (buffer q1)) + (accepted' - (accepted + 1))"
        "\<forall>e \<in> set (drop (length (buffer q1)) (buffer q')). Event.Type e \<noteq> ''''"
        "rejected + int (length (filter (\<lambda>e. Event.Type e = '''') rest)) \<le> rejected'"
        by simp_all
      have b1: "buffer q1 = buffer q @ [?event]" using q1 by simp
      from ih(3) have split: "buffer q' = buffer q @ [?event] @ drop (length (buffer q1)) (buffer q')"
        unfolding b1 by (metis append_assoc append_take_drop_id)
      then have t: "take (length (buffer q)) (buffer q') = buffer q"
        by (metis append_eq_conv_conj)
      from split have d: "drop (length (buffer q)) (buffer q')
                      = ?event # drop (length (buffer q1)) (buffer q')"
        by (metis append_Cons append_Nil append_eq_conv_conj)
      show ?thesis
        using ih(1,2,4,6) t False ih(5) unfolding d
        by (simp add: b1 q1 Type_defaulted)
    qed
  qed
qed

lemma queue_all_typed:
  "\<not> list_ex (\<lambda>e. Event.Type e = '''') events \<Longrightarrow>
   queue_all events i now nano q accepted rejected = (q', accepted', rejected') \<Longrightarrow>
     accepted' = accepted + int (min (length events) (room q))
     \<and> rejected' = rejected + int (length events - room q)"
proof (induction events arbitrary: i q accepted rejected)
  case Nil
  then show ?case by simp
next
  case (Cons e rest)
  let ?event = "defaulted e i now nano"
  from Cons.prems(1) have t: "Event.Type e \<noteq> ''''"
    and r: "\<not> list_ex (\<lambda>e. Event.Type e = '''') rest"
    by simp_all
  show ?case
  proof (cases "try_send q ?event")
    case None
    then have full: "room q = 0"
      by (simp add: try_send_def room_def split: if_splits)
    from None Cons.prems(2) t
    have "queue_all rest (Suc i) now nano q accepted (rejected + 1) = (q', accepted', rejected')"
      by (simp add: Let_def Type_defaulted)
    from Cons.IH [OF r this] full show ?thesis by simp
  next
    case (Some q1)
    then have q1: "room q = Suc (room q1)"
      by (auto simp: try_send_def room_def split: if_splits)
    from Some Cons.prems(2) t
    have "queue_all rest (Suc i) now nano q1 (accepted + 1) rejected = (q', accepted', rejected')"
      by (simp add: Let_def Type_defaulted)
    from Cons.IH [OF r this] q1 show ?thesis by simp
  qed
qed

text \<open>
  A batch of length 0 or above 1000 gets the reply 400 and changes nothing, whatever its
  items are.
\<close>

lemma handleBatchEvents_size:
  "length events = 0 \<or> 1000 < length events \<Longrightarrow>
     fst (handleBatchEvents s validation_error (decoded events) now nano) = s
     \<and> code (snd (handleBatchEvents s validation_error (decoded events) now nano)) = StatusBadRequest"
  by (auto simp: handleBatchEvents_def ShouldBindJSON_def)

text \<open>
  A batch of 1 to 1000 events that all have a type gets the reply 202 with a body whose
  counts satisfy accepted + rejected = total: the accepted events are as many as the queue
  has room for, the rejected ones are those that found the queue full. The queue keeps what
  it held and gains the accepted events, and the aggregator is untouched.
\<close>

lemma handleBatchEvents_typed:
  assumes "\<not> list_ex (\<lambda>e. Event.Type e = '''') events"
    and "1 \<le> length events" "length events \<le> 1000"
  shows "code (snd (handleBatchEvents s validation_error (decoded events) now nano)) = StatusAccepted"
    and "aggregator (fst (handleBatchEvents s validation_error (decoded events) now nano)) = aggregator s"
    and "data_of (snd (handleBatchEvents s validation_error (decoded events) now nano)) ''total''
           = Some (any_int (int (length events)))"
    and "data_of (snd (handleBatchEvents s validation_error (decoded events) now nano)) ''accepted''
           = Some (any_int (int (min (length events) (room (eventQueue s)))))"
    and "data_of (snd (handleBatchEvents s validation_error (decoded events) now nano)) ''rejected''
           = Some (any_int (int (length events - room (eventQueue s))))"
    and "take (length (buffer (eventQueue s)))
           (buffer (eventQueue (fst (handleBatchEvents s validation_error (decoded events) now nano))))
           = buffer (eventQueue s)"
    and "int (min (length events) (room (eventQueue s))) + int (length events - room (eventQueue s))
           = int (length events)"
    and "length (buffer (eventQueue (fst (handleBatchEvents s validation_error (decoded events) now nano))))
           = length (buffer (eventQueue s)) + min (length events) (room (eventQueue s))"
proof -
  obtain q accepted rejected
    where qa: "queue_all events 0 now nano (eventQueue s) 0 0 = (q, accepted, rejected)"
    by (cases "queue_all events 0 now nano (eventQueue s) 0 0")
  let ?r = "\<lparr>code = StatusAccepted,
             obj = success_response
               \<lparr>Status = ''accepted'',
                Data = [''total'' \<mapsto> any_int (int (length events)),
                        ''accepted'' \<mapsto> any_int accepted,
                        ''rejected'' \<mapsto> any_int rejected],
                Message = ''batch processed: '' @ Sprint_d (int (length events))
                            @ '' events''\<rparr>\<rparr>"
  have h: "handleBatchEvents s validation_error (decoded events) now nano = (s\<lparr>eventQueue := q\<rparr>, ?r)"
    using assms qa by (auto simp: handleBatchEvents_def ShouldBindJSON_def)
  have d: "data_of ?r ''total'' = Some (any_int (int (length events)))"
    "data_of ?r ''accepted'' = Some (any_int accepted)"
    "data_of ?r ''rejected'' = Some (any_int rejected)"
    by (simp_all add: data_of_def)
  from queue_all_typed [OF assms(1) qa]
  have c: "accepted = int (min (length events) (room (eventQueue s)))"
    "rejected = int (length events - room (eventQueue s))"
    by simp_all
  from queue_all_effect [OF qa]
  have e: "take (length (buffer (eventQueue s))) (buffer q) = buffer (eventQueue s)"
    "int (length (buffer q)) = int (length (buffer (eventQueue s))) + accepted"
    by simp_all
  show "code (snd (handleBatchEvents s validation_error (decoded events) now nano)) = StatusAccepted"
    and "aggregator (fst (handleBatchEvents s validation_error (decoded events) now nano)) = aggregator s"
    and "data_of (snd (handleBatchEvents s validation_error (decoded events) now nano)) ''total''
           = Some (any_int (int (length events)))"
    and "data_of (snd (handleBatchEvents s validation_error (decoded events) now nano)) ''accepted''
           = Some (any_int (int (min (length events) (room (eventQueue s)))))"
    and "data_of (snd (handleBatchEvents s validation_error (decoded events) now nano)) ''rejected''
           = Some (any_int (int (length events - room (eventQueue s))))"
    and "take (length (buffer (eventQueue s)))
           (buffer (eventQueue (fst (handleBatchEvents s validation_error (decoded events) now nano))))
           = buffer (eventQueue s)"
    unfolding h fst_conv snd_conv d using c e(1) by simp_all
  show "int (min (length events) (room (eventQueue s))) + int (length events - room (eventQueue s))
           = int (length events)"
    by simp
  show "length (buffer (eventQueue (fst (handleBatchEvents s validation_error (decoded events) now nano))))
           = length (buffer (eventQueue s)) + min (length events) (room (eventQueue s))"
    unfolding h fst_conv using e(2) c(1) by simp
qed

text \<open>
  The four typed events on a queue with room for two: 202, the first two events queued and
  the other two rejected.
\<close>

lemma handle_typed_batch_of_four:
  "code (snd (handleBatchEvents small_server type_required (decoded typed_batch_of_four) 20 unix_nano))
     = 202"
  "data_of (snd (handleBatchEvents small_server type_required (decoded typed_batch_of_four) 20 unix_nano))
     ''total'' = Some (any_int 4)"
  "data_of (snd (handleBatchEvents small_server type_required (decoded typed_batch_of_four) 20 unix_nano))
     ''accepted'' = Some (any_int 2)"
  "data_of (snd (handleBatchEvents small_server type_required (decoded typed_batch_of_four) 20 unix_nano))
     ''rejected'' = Some (any_int 2)"
  "map ID (buffer (eventQueue
      (fst (handleBatchEvents small_server type_required (decoded typed_batch_of_four) 20 unix_nano))))
     = [''evt_1'', ''evt_2'']"
  by (simp_all add: handleBatchEvents_def ShouldBindJSON_def typed_batch_of_four_def small_server_def
        defaulted_def IsZero_def try_send_def data_of_def StatusAccepted_def Let_def)

text \<open>
  C9. A batch with an item whose type is empty never reaches the loop of the handler: the
  binding refuses it, so the reply is 400 and the server, its queue and its aggregator, stays
  as it is, whatever the length of the batch. The loop itself counts an item with an empty
  type as rejected and goes on to the next item (\<open>queue_all\<close>), which is what the reply 202
  with per-item counts needs; with the \<^verbatim>\<open>required\<close> tag on \<^verbatim>\<open>Type\<close> that branch is
  never taken.
\<close>

theorem C9_untyped_item_refuses_batch:
  "list_ex (\<lambda>e. Event.Type e = '''') events \<longrightarrow>
     fst (handleBatchEvents s validation_error (decoded events) now nano) = s
     \<and> snd (handleBatchEvents s validation_error (decoded events) now nano)
         = \<lparr>code = StatusBadRequest,
            obj = error_response
              \<lparr>Error = True,
               ErrorResponse.Message = ''invalid batch data: '' @ validation_error events\<rparr>\<rparr>"
  by (simp add: handleBatchEvents_def ShouldBindJSON_def)

text \<open>
  The batch of four whose second event has no type, on the empty queue with room for two:
  the length is within 1 to 1000, the reply is 400 and nothing is queued; the loop alone
  would have queued the first and the third event and rejected the other two.
\<close>

theorem C9_untyped_item_refuses_batch_witness:
  "list_ex (\<lambda>e. Event.Type e = '''') batch_of_four
   \<and> 1 \<le> length batch_of_four \<and> length batch_of_four \<le> 1000
   \<and> fst (handleBatchEvents small_server type_required (decoded batch_of_four) 20 unix_nano)
       = small_server
   \<and> code (snd (handleBatchEvents small_server type_required (decoded batch_of_four) 20 unix_nano))
       = 400
   \<and> buffer (eventQueue
        (fst (handleBatchEvents small_server type_required (decoded batch_of_four) 20 unix_nano)))
       = []
   \<and> (case queue_all batch_of_four 0 20 unix_nano (eventQueue small_server) 0 0 of
        (q, accepted, rejected) \<Rightarrow> (map ID (buffer q), accepted, rejected))
       = ([''evt_1'', ''evt_3''], 2, 2)"
proof -
  have u: "list_ex (\<lambda>e. Event.Type e = '''') batch_of_four"
    by (simp add: batch_of_four_def)
  have l: "1 \<le> length batch_of_four \<and> length batch_of_four \<le> 1000"
    by (simp add: batch_of_four_def)
  have q: "(case queue_all batch_of_four 0 20 unix_nano (eventQueue small_server) 0 0 of
        (q, accepted, rejected) \<Rightarrow> (map ID (buffer q), accepted, rejected))
       = ([''evt_1'', ''evt_3''], 2, 2)"
    by (simp add: batch_of_four_def small_server_def defaulted_def IsZero_def try_send_def Let_def)
  from C9_untyped_item_refuses_batch [of batch_of_four small_server type_required 20 unix_nano] u
  have "fst (handleBatchEvents small_server type_required (decoded batch_of_four) 20 unix_nano)
          = small_server"
    and "code (snd (handleBatchEvents small_server type_required (decoded batch_of_four) 20 unix_nano))
          = StatusBadRequest"
    by simp_all
  then show ?thesis
    using u l q by (simp add: StatusBadRequest_def small_server_def)
qed

end
